theory Spec2Isabelle
  imports Main "HOL-Library.Multiset"
begin

section \<open>Python values, errors and library primitives\<close>

text \<open>
  Exceptions of the Python program are values: a function that can raise returns
  \<open>error + 'a\<close>, with \<open>Inl\<close> for the exception.
\<close>

datatype error =
    IndexError | KeyError | TypeError | ValueError | AttributeError
  | UnicodeDecodeError | JSONDecodeError | OSError

text \<open>
  A decoded JSON value, which is also the universe of the Python values the program binds
  to option names: \<open>JNull\<close> is \<open>None\<close>, \<open>JStr\<close> a \<open>str\<close>, \<open>JArr\<close> a \<open>list\<close> and
  \<open>JObj\<close> a \<open>dict\<close> in insertion order (its keys are distinct). A number is an integer:
  the program passes numbers on as they are, and reads one only as the column index of
  \<open>group-by\<close>. A \<open>string\<close> stands for a Python \<open>str\<close>, one \<open>char\<close> for each code
  point.
\<close>

datatype json =
    JNull | JBool bool | JNum int | JStr string
  | JArr "json list" | JObj "(string \<times> json) list"

type_synonym bytes = string

text \<open>
  The primitives the program takes from Python's library and from the operating system:
  \<open>isspace\<close> is the set of characters \<open>str.strip()\<close> removes, \<open>parse_float\<close> says whether
  \<open>float(value)\<close> returns (it raises ValueError otherwise), \<open>subprocess_run\<close> is
  \<open>subprocess.run(args, capture_output=True).stdout\<close>, \<open>decode_utf8\<close> is
  \<open>bytes.decode('utf-8')\<close>, \<open>splitlines\<close> is \<open>str.splitlines()\<close>, \<open>str_split\<close> is
  \<open>str.split(sep)\<close> and \<open>json_loads\<close> is \<open>json.loads\<close>.
\<close>

record library =
  isspace :: "char \<Rightarrow> bool"
  parse_float :: "string \<Rightarrow> bool"
  subprocess_run :: "json list \<Rightarrow> error + bytes"
  decode_utf8 :: "bytes \<Rightarrow> error + string"
  splitlines :: "string \<Rightarrow> string list"
  str_split :: "string \<Rightarrow> json \<Rightarrow> error + string list"
  json_loads :: "bytes \<Rightarrow> error + json"

text \<open>
  An instance of the primitives on which the definitions can be evaluated: blank and tab
  are the white space, a string of decimal digits is what \<open>float\<close> accepts (Python's
  accepts more), the process prints nothing, and the text is one line of one cell.
\<close>

definition is_digits :: "string \<Rightarrow> bool" where
  "is_digits s = (s \<noteq> [] \<and> list_all (\<lambda>c. c \<in> set ''0123456789'') s)"

definition example_library :: library where
  "example_library =
     \<lparr>isspace = (\<lambda>c. c = CHR '' '' \<or> c = CHR 0x09),
      parse_float = is_digits,
      subprocess_run = (\<lambda>args. Inr []),
      decode_utf8 = Inr,
      splitlines = (\<lambda>s. [s]),
      str_split = (\<lambda>s separator. Inr [s]),
      json_loads = (\<lambda>b. Inr JNull)\<rparr>"

subsection \<open>Lists and dictionaries\<close>

text \<open>
  Python list indexing: an index \<open>i\<close> of a list of length \<open>n\<close> is in range when
  \<open>-n \<le> i < n\<close>, a negative index counts from the end; out of range raises IndexError.
\<close>

definition in_range :: "nat \<Rightarrow> int \<Rightarrow> bool" where
  "in_range n i = (- int n \<le> i \<and> i < int n)"

definition py_pos :: "nat \<Rightarrow> int \<Rightarrow> nat" where
  "py_pos n i = nat (if i < 0 then i + int n else i)"

definition getitem :: "'a list \<Rightarrow> int \<Rightarrow> error + 'a" where
  "getitem xs i =
     (if in_range (length xs) i then Inr (xs ! py_pos (length xs) i) else Inl IndexError)"

definition without :: "'a list \<Rightarrow> int \<Rightarrow> 'a list" where
  "without xs i = take (py_pos (length xs) i) xs @ drop (Suc (py_pos (length xs) i)) xs"

definition delitem :: "'a list \<Rightarrow> int \<Rightarrow> error + 'a list" where
  "delitem xs i = (if in_range (length xs) i then Inr (without xs i) else Inl IndexError)"

text \<open>
  A \<open>dict\<close> is an association list in insertion order. \<open>key in d\<close> is \<open>dict_contains\<close>,
  \<open>d[key]\<close> is \<open>dict_getitem\<close> (KeyError when the key is missing).
\<close>

definition dict_contains :: "('k \<times> 'v) list \<Rightarrow> 'k \<Rightarrow> bool" where
  "dict_contains d k = (k \<in> set (map fst d))"

definition dict_getitem :: "('k \<times> 'v) list \<Rightarrow> 'k \<Rightarrow> error + 'v" where
  "dict_getitem d k = (case map_of d k of None \<Rightarrow> Inl KeyError | Some v \<Rightarrow> Inr v)"

section \<open>TabularData\<close>

datatype column_type = NUMBER | STRING

text \<open>
  \<open>self.data\<close> is a list of rows after \<open>import_data\<close> and a \<open>dict\<close> from group name to
  rows after \<open>group_by\<close>.
\<close>

datatype table_data =
    Flat "string list list"
  | Grouped "(string \<times> string list list) list"

record TabularData =
  headings :: "string list"
  data :: table_data
  width :: nat
  column_types :: "column_type list"
  maximum_lengths :: "nat list"

definition TabularData_init :: TabularData where
  "TabularData_init =
     \<lparr>headings = [], data = Flat [], width = 0, column_types = [], maximum_lengths = []\<rparr>"

definition has_tree :: "TabularData \<Rightarrow> bool" where
  "has_tree self = (case data self of Grouped _ \<Rightarrow> True | Flat _ \<Rightarrow> False)"

subsection \<open>insertable_items\<close>

text \<open>
  What the generator yields, in order. The second component of a pair is a group name
  (a \<open>str\<close>) or a row (a \<open>list\<close>). \<open>items_of_groups d keys\<close> is the loop
  \<open>for group in self.data\<close> over the keys left, with \<open>self.data[group]\<close> looked up in
  the whole dictionary (the lookup of a key of the dictionary cannot fail).
\<close>

datatype item = GroupName string | Row "string list"

definition rows_of :: "(string \<times> string list list) list \<Rightarrow> string \<Rightarrow> string list list" where
  "rows_of d k = (case map_of d k of None \<Rightarrow> [] | Some rows \<Rightarrow> rows)"

fun items_of_groups ::
  "(string \<times> string list list) list \<Rightarrow> string list \<Rightarrow> (string \<times> item) list" where
  "items_of_groups d [] = []"
| "items_of_groups d (grp # rest) =
     ('''', GroupName grp)
       # map (\<lambda>row. (grp, Row row)) (rows_of d grp)
       @ items_of_groups d rest"

definition insertable_items :: "TabularData \<Rightarrow> (string \<times> item) list" where
  "insertable_items self =
     (case data self of
        Grouped d \<Rightarrow> items_of_groups d (map fst d)
      | Flat rows \<Rightarrow> map (\<lambda>row. ('''', Row row)) rows)"

subsection \<open>Column types and maximum lengths\<close>

definition strip :: "library \<Rightarrow> string \<Rightarrow> string" where
  "strip L s = rev (dropWhile (isspace L) (rev (dropWhile (isspace L) s)))"

text \<open>
  The inner loop of \<open>_find_column_types\<close> over \<open>enumerate(row)\<close>, from index \<open>column\<close>
  on. \<open>types[column]\<close> is read first, and raises IndexError past the end of \<open>types\<close>.
\<close>

fun types_of_row ::
  "library \<Rightarrow> nat \<Rightarrow> string list \<Rightarrow> column_type list \<Rightarrow> error + column_type list" where
  "types_of_row L column [] types = Inr types"
| "types_of_row L column (v # rest) types =
     (if length types \<le> column then Inl IndexError
      else if types ! column = STRING \<or> strip L v = '''' then
        types_of_row L (Suc column) rest types
      else if parse_float L v then
        types_of_row L (Suc column) rest (types[column := NUMBER])
      else
        types_of_row L (Suc column) rest (types[column := STRING]))"

text \<open>The outer loop, which stops as soon as every column is typed STRING.\<close>

fun types_of_rows ::
  "library \<Rightarrow> nat \<Rightarrow> string list list \<Rightarrow> column_type list \<Rightarrow> error + column_type list" where
  "types_of_rows L w [] types = Inr types"
| "types_of_rows L w (row # rows) types =
     (if types = replicate w STRING then Inr types
      else case types_of_row L 0 row types of
             Inl e \<Rightarrow> Inl e
           | Inr types' \<Rightarrow> types_of_rows L w rows types')"

text \<open>
  \<open>_find_column_types\<close> and \<open>_find_maximum_length\<close> read \<open>self.width\<close>, \<open>self.headings\<close>
  and \<open>self.data\<close>, which is the list of rows at their only call site.
\<close>

definition find_column_types ::
  "library \<Rightarrow> nat \<Rightarrow> string list list \<Rightarrow> error + column_type list" where
  "find_column_types L w rows = types_of_rows L w rows (replicate w NUMBER)"

fun maximum_of_row :: "nat \<Rightarrow> string list \<Rightarrow> nat list \<Rightarrow> error + nat list" where
  "maximum_of_row column [] maximum = Inr maximum"
| "maximum_of_row column (v # rest) maximum =
     (if length maximum \<le> column then Inl IndexError
      else if maximum ! column < length v then
        maximum_of_row (Suc column) rest (maximum[column := length v])
      else maximum_of_row (Suc column) rest maximum)"

fun maximum_of_rows :: "string list list \<Rightarrow> nat list \<Rightarrow> error + nat list" where
  "maximum_of_rows [] maximum = Inr maximum"
| "maximum_of_rows (row # rows) maximum =
     (case maximum_of_row 0 row maximum of
        Inl e \<Rightarrow> Inl e
      | Inr maximum' \<Rightarrow> maximum_of_rows rows maximum')"

definition find_maximum_length :: "string list \<Rightarrow> string list list \<Rightarrow> error + nat list" where
  "find_maximum_length hs rows = maximum_of_rows rows (map length hs)"

subsection \<open>import_data\<close>

text \<open>
  The model after the call, or the exception. With fewer than two rows the method
  returns at once and the model is the one before the call.
\<close>

definition import_data ::
  "library \<Rightarrow> TabularData \<Rightarrow> string list list \<Rightarrow> error + TabularData" where
  "import_data L self d =
     (if length d < 2 then Inr self
      else
        let self1 = self\<lparr>headings := d ! 0, data := Flat (drop 1 d), width := length (d ! 0)\<rparr>
        in case find_column_types L (width self1) (drop 1 d) of
             Inl e \<Rightarrow> Inl e
           | Inr types \<Rightarrow>
               (case find_maximum_length (headings self1) (drop 1 d) of
                  Inl e \<Rightarrow> Inl e
                | Inr maximum \<Rightarrow>
                    Inr (self1\<lparr>column_types := types, maximum_lengths := maximum\<rparr>)))"

subsection \<open>group_by\<close>

text \<open>
  \<open>group_by\<close> deletes cells in place: \<open>del row[column]\<close> changes the list object \<open>row\<close>,
  and \<open>del self.headings[column]\<close> the list object that was \<open>data[0]\<close>. What it does
  therefore depends on which of the lists of the model are one and the same object. The
  list objects are kept in a heap, and \<open>group_by\<close> is told the identifier \<open>heading_id\<close> of
  the object of the headings and the identifiers \<open>row_ids\<close> of the objects of the rows,
  one for each row and in their order: an identifier that occurs twice is a list object
  that occurs twice. \<open>heap_of ids xs\<close> is the heap in which the object \<open>ids ! i\<close> holds
  \<open>xs ! i\<close>.
\<close>

type_synonym ref = nat

type_synonym heap = "ref \<Rightarrow> string list"

fun heap_of :: "ref list \<Rightarrow> string list list \<Rightarrow> heap" where
  "heap_of (r # rs) (x # xs) = (heap_of rs xs)(r := x)"
| "heap_of _ _ = (\<lambda>r. [])"

text \<open>
  \<open>group_append\<close> is \<open>groups[group_name].append(row)\<close> on a key of the dictionary; on
  a new key \<open>groups[group_name] = [row]\<close> puts the entry at the end. The groups hold the
  row objects, \<open>contents\<close> gives the dictionary with what these objects hold.
\<close>

definition group_append ::
  "(string \<times> 'a list) list \<Rightarrow> string \<Rightarrow> 'a \<Rightarrow> (string \<times> 'a list) list" where
  "group_append groups group_name row =
     map (\<lambda>(k, rows). if k = group_name then (k, rows @ [row]) else (k, rows)) groups"

definition contents ::
  "heap \<Rightarrow> (string \<times> ref list) list \<Rightarrow> (string \<times> string list list) list" where
  "contents h groups = map (\<lambda>(k, rows). (k, map h rows)) groups"

fun group_rows ::
  "int \<Rightarrow> ref list \<Rightarrow> heap \<Rightarrow> (string \<times> ref list) list
     \<Rightarrow> error + heap \<times> (string \<times> ref list) list" where
  "group_rows column [] h groups = Inr (h, groups)"
| "group_rows column (row # rows) h groups =
     (case getitem (h row) column of
        Inl e \<Rightarrow> Inl e
      | Inr group_name \<Rightarrow>
          (case delitem (h row) column of
             Inl e \<Rightarrow> Inl e
           | Inr cells \<Rightarrow>
               group_rows column rows (h(row := cells))
                 (if dict_contains groups group_name
                  then group_append groups group_name row
                  else groups @ [(group_name, [row])])))"

text \<open>
  Over a model that is grouped already, \<open>for row in self.data\<close> walks the group names:
  \<open>row[column]\<close> reads a character of the first name and \<open>del row[column]\<close> raises
  TypeError, a \<open>str\<close> having no item deletion.
\<close>

definition group_by :: "TabularData \<Rightarrow> ref \<Rightarrow> ref list \<Rightarrow> int \<Rightarrow> error + TabularData" where
  "group_by self heading_id row_ids column =
     (case (case data self of
              Flat rows \<Rightarrow>
                group_rows column row_ids
                  (heap_of (heading_id # row_ids) (headings self # rows)) []
            | Grouped [] \<Rightarrow> Inr (heap_of [heading_id] [headings self], [])
            | Grouped ((name, _) # _) \<Rightarrow>
                (case getitem name column of Inl e \<Rightarrow> Inl e | Inr _ \<Rightarrow> Inl TypeError)) of
        Inl e \<Rightarrow> Inl e
      | Inr (h, groups) \<Rightarrow>
          (case delitem (h heading_id) column of
             Inl e \<Rightarrow> Inl e
           | Inr headings' \<Rightarrow>
               (case delitem (maximum_lengths self) column of
                  Inl e \<Rightarrow> Inl e
                | Inr maximum' \<Rightarrow>
                    (case delitem (column_types self) column of
                       Inl e \<Rightarrow> Inl e
                     | Inr types' \<Rightarrow>
                         Inr (self\<lparr>headings := headings',
                                  data := Grouped (contents (h(heading_id := headings')) groups),
                                  maximum_lengths := maximum', column_types := types'\<rparr>)))))"

text \<open>
  For the statements about \<open>group_by\<close>: the order in which the values of a list are seen
  for the first time, and the loop of \<open>group_by\<close> over rows that are values, which is what
  \<open>group_rows\<close> computes when no list object occurs twice.
\<close>

fun first_seen :: "'a list \<Rightarrow> 'a list" where
  "first_seen [] = []"
| "first_seen (x # xs) = x # filter (\<lambda>y. y \<noteq> x) (first_seen xs)"

fun group_values ::
  "int \<Rightarrow> string list list \<Rightarrow> (string \<times> string list list) list
     \<Rightarrow> error + (string \<times> string list list) list" where
  "group_values column [] groups = Inr groups"
| "group_values column (row # rows) groups =
     (case getitem row column of
        Inl e \<Rightarrow> Inl e
      | Inr group_name \<Rightarrow>
          (case delitem row column of
             Inl e \<Rightarrow> Inl e
           | Inr cells \<Rightarrow>
               group_values column rows
                 (if dict_contains groups group_name
                  then group_append groups group_name cells
                  else groups @ [(group_name, [cells])])))"

section \<open>Action\<close>

text \<open>
  \<open>vals\<close> is the dictionary \<open>self.values\<close> from option name to the value read from its
  widget; \<open>configuration\<close> is the \<open>output\<close> object of the action.
\<close>

record Action =
  arguments :: "string list"
  vals :: "(string \<times> json) list"
  configuration :: "(string \<times> json) list"

text \<open>The token \<open>f"{{{value_name}}}"\<close>: the name between braces.\<close>

definition token :: "string \<Rightarrow> string" where
  "token value_name = ''{'' @ value_name @ ''}''"

text \<open>
  \<open>str.replace(old, new)\<close>: the occurrences of \<open>old\<close> are found from left to right and do
  not overlap; an empty \<open>old\<close> matches before every character and at the end.
\<close>

fun py_replace :: "string \<Rightarrow> string \<Rightarrow> string \<Rightarrow> string" where
  "py_replace [] old new = (if old = [] then new else [])"
| "py_replace (c # cs) old new =
     (if old = [] then new @ c # py_replace cs old new
      else if take (length old) (c # cs) = old then
        new @ py_replace (drop (length old - 1) cs) old new
      else c # py_replace cs old new)"

text \<open>The first loop of \<open>expand\<close>: the argument that is the token of a bound name.\<close>

fun expand_token ::
  "(string \<times> json) list \<Rightarrow> string list \<Rightarrow> string \<Rightarrow> (error + json) option" where
  "expand_token values [] argument = None"
| "expand_token values (value_name # rest) argument =
     (if argument = token value_name then Some (dict_getitem values value_name)
      else expand_token values rest argument)"

text \<open>
  The second loop: \<open>argument.replace(token, value)\<close> raises TypeError when \<open>value\<close> is
  not a \<open>str\<close>, \<open>None\<close> having been replaced by the empty string before.
\<close>

fun expand_replace ::
  "(string \<times> json) list \<Rightarrow> string list \<Rightarrow> string \<Rightarrow> error + string" where
  "expand_replace values [] argument = Inr argument"
| "expand_replace values (value_name # rest) argument =
     (case dict_getitem values value_name of
        Inl e \<Rightarrow> Inl e
      | Inr v \<Rightarrow>
          (case (if v = JNull then JStr '''' else v) of
             JStr new \<Rightarrow>
               expand_replace values rest (py_replace argument (token value_name) new)
           | _ \<Rightarrow> Inl TypeError))"

definition expand :: "(string \<times> json) list \<Rightarrow> string \<Rightarrow> error + json" where
  "expand values argument =
     (case expand_token values (map fst values) argument of
        Some r \<Rightarrow> r
      | None \<Rightarrow>
          (case expand_replace values (map fst values) argument of
             Inl e \<Rightarrow> Inl e
           | Inr s \<Rightarrow> Inr (JStr s)))"

text \<open>
  The list comprehension of \<open>run\<close>: the expansions of the arguments in order, those that
  are \<open>None\<close> left out.
\<close>

fun expand_arguments :: "(string \<times> json) list \<Rightarrow> string list \<Rightarrow> error + json list" where
  "expand_arguments values [] = Inr []"
| "expand_arguments values (argument # rest) =
     (case expand values argument of
        Inl e \<Rightarrow> Inl e
      | Inr expanded_value \<Rightarrow>
          (case expand_arguments values rest of
             Inl e \<Rightarrow> Inl e
           | Inr expanded \<Rightarrow>
               Inr (if expanded_value \<noteq> JNull then expanded_value # expanded else expanded)))"

text \<open>
  For the statements about \<open>expand\<close>: the values \<open>str.replace\<close> accepts once \<open>None\<close> has
  been replaced (a \<open>str\<close> or \<open>None\<close>), the text put in for such a value, and an occurrence
  of \<open>old\<close> in \<open>s\<close> at position \<open>i\<close>.
\<close>

definition is_text :: "json \<Rightarrow> bool" where
  "is_text v = (case v of JNull \<Rightarrow> True | JStr _ \<Rightarrow> True | _ \<Rightarrow> False)"

definition binding_text :: "json \<Rightarrow> string" where
  "binding_text v = (case v of JStr s \<Rightarrow> s | _ \<Rightarrow> [])"

definition occurs_at :: "string \<Rightarrow> string \<Rightarrow> nat \<Rightarrow> bool" where
  "occurs_at old s i = (take (length old) (drop i s) = old)"

subsection \<open>import_raw_data and run\<close>

text \<open>\<open>row.split(separator)\<close> for every line.\<close>

fun split_rows :: "library \<Rightarrow> json \<Rightarrow> string list \<Rightarrow> error + string list list" where
  "split_rows L separator [] = Inr []"
| "split_rows L separator (row # rows) =
     (case str_split L row separator of
        Inl e \<Rightarrow> Inl e
      | Inr cells \<Rightarrow>
          (case split_rows L separator rows of
             Inl e \<Rightarrow> Inl e
           | Inr rest \<Rightarrow> Inr (cells # rest)))"

text \<open>
  \<open>group_by_opt\<close> is the JSON value of the key \<open>group-by\<close>, \<open>JNull\<close> when there is none.
  A number is the column index, a boolean is the index 0 or 1 (\<open>bool\<close> is an \<open>int\<close>),
  any other value is no list index: TypeError. Every row is the list of its own call of
  \<open>split\<close>, so that the lists of the model are different objects: the headings are the
  object 0 and the rows the objects from 1 on.
\<close>

definition import_raw_data ::
  "library \<Rightarrow> TabularData \<Rightarrow> bytes \<Rightarrow> json \<Rightarrow> json \<Rightarrow> error + TabularData" where
  "import_raw_data L self text separator group_by_opt =
     (case decode_utf8 L text of
        Inl e \<Rightarrow> Inl e
      | Inr s \<Rightarrow>
          (case split_rows L separator (splitlines L s) of
             Inl e \<Rightarrow> Inl e
           | Inr d \<Rightarrow>
               (case import_data L self d of
                  Inl e \<Rightarrow> Inl e
                | Inr self1 \<Rightarrow>
                    (case group_by_opt of
                       JNull \<Rightarrow> Inr self1
                     | JNum column \<Rightarrow> group_by self1 0 [1..<length d] column
                     | JBool b \<Rightarrow> group_by self1 0 [1..<length d] (if b then 1 else 0)
                     | _ \<Rightarrow> Inl TypeError))))"

datatype result = Table TabularData | Json json | Raw bytes

definition run :: "library \<Rightarrow> Action \<Rightarrow> error + result" where
  "run L self =
     (case expand_arguments (vals self) (arguments self) of
        Inl e \<Rightarrow> Inl e
      | Inr expanded \<Rightarrow>
          (case subprocess_run L expanded of
             Inl e \<Rightarrow> Inl e
           | Inr stdout \<Rightarrow>
               (case dict_getitem (configuration self) ''viewer'' of
                  Inl e \<Rightarrow> Inl e
                | Inr viewer \<Rightarrow>
                    if viewer = JStr ''table'' then
                      (case import_raw_data L TabularData_init stdout
                              (case map_of (configuration self) ''separator'' of
                                 Some separator \<Rightarrow> separator
                               | None \<Rightarrow> JStr [CHR 0x09])
                              (case map_of (configuration self) ''group-by'' of
                                 Some column \<Rightarrow> column
                               | None \<Rightarrow> JNull) of
                         Inl e \<Rightarrow> Inl e
                       | Inr t \<Rightarrow> Inr (Table t))
                    else if viewer = JStr ''json'' then
                      (case json_loads L stdout of
                         Inl e \<Rightarrow> Inl e
                       | Inr v \<Rightarrow> Inr (Json v))
                    else Inr (Raw stdout))))"

section \<open>NullBooleanVar and the widgets\<close>

text \<open>
  \<open>tkvalue\<close> is the state of the Tk variable, which \<open>BooleanVar.get\<close> returns as a
  \<open>bool\<close>; \<open>onvalue\<close> and \<open>offvalue\<close> are the values of the keys \<open>true\<close> and \<open>false\<close>
  of the option.
\<close>

record NullBooleanVar =
  onvalue :: json
  offvalue :: json
  tkvalue :: bool

definition NullBooleanVar_init :: "bool \<Rightarrow> json \<Rightarrow> json \<Rightarrow> NullBooleanVar" where
  "NullBooleanVar_init v on off = \<lparr>onvalue = on, offvalue = off, tkvalue = v\<rparr>"

definition get_null :: "NullBooleanVar \<Rightarrow> json" where
  "get_null self = (if tkvalue self then onvalue self else offvalue self)"

text \<open>
  What \<open>create_widget_text\<close>, \<open>create_widget_file\<close>, \<open>create_widget_list\<close> and
  \<open>create_widget_boolean\<close> store for an option: an entry or a combobox with its text, or
  a NullBooleanVar. Only the last has a method \<open>get_null\<close>.
\<close>

datatype widget = Entry string | Combobox string | Checkbox NullBooleanVar

fun widget_get_null :: "widget \<Rightarrow> error + json" where
  "widget_get_null (Checkbox v) = Inr (get_null v)"
| "widget_get_null _ = Inl AttributeError"

fun widget_get :: "widget \<Rightarrow> json" where
  "widget_get (Entry s) = JStr s"
| "widget_get (Combobox s) = JStr s"
| "widget_get (Checkbox v) = JBool (tkvalue v)"

definition get_value :: "widget \<Rightarrow> error + json" where
  "get_value w =
     (case widget_get_null w of
        Inl e \<Rightarrow> (if e = AttributeError then Inr (widget_get w) else Inl e)
      | Inr v \<Rightarrow> Inr v)"

section \<open>TreeViewer\<close>

text \<open>
  The tree widget is the list of the nodes inserted so far. \<open>tree.insert\<close> appends a node
  and returns its identifier; \<open>Root\<close> is the parent \<open>''\<close>. A node has the keyword
  arguments of \<open>tree.insert\<close>: \<open>label\<close> is \<open>text\<close>, \<open>row_values\<close> is \<open>values\<close> (empty when
  not given) and \<open>opened\<close> is \<open>open\<close> (false when not given).
\<close>

datatype node_id = Root | Item nat

datatype node_text = NoText | TextKey string | TextIndex nat | TextValue json

record node =
  parent :: node_id
  label :: node_text
  row_values :: "json list"
  opened :: bool

record TreeViewer =
  collapsed :: bool
  key_values :: "string list option"

definition has_key_values :: "TreeViewer \<Rightarrow> json \<Rightarrow> bool" where
  "has_key_values self v =
     (case v of
        JObj d \<Rightarrow>
          (case key_values self of
             None \<Rightarrow> False
           | Some names \<Rightarrow> list_all (dict_contains d) names)
      | _ \<Rightarrow> False)"

fun getitems :: "(string \<times> json) list \<Rightarrow> string list \<Rightarrow> error + json list" where
  "getitems d [] = Inr []"
| "getitems d (k # ks) =
     (case dict_getitem d k of
        Inl e \<Rightarrow> Inl e
      | Inr v \<Rightarrow> (case getitems d ks of Inl e \<Rightarrow> Inl e | Inr vs \<Rightarrow> Inr (v # vs)))"

text \<open>
  The first block of \<open>display_data\<close>: \<open>Some\<close> when it returns or raises, \<open>None\<close> when
  control goes on to the blocks after it. \<open>self.key_values[0]\<close> raises IndexError on an
  empty list.
\<close>

definition key_values_node ::
  "TreeViewer \<Rightarrow> json \<Rightarrow> node list \<Rightarrow> node_id \<Rightarrow> (error + node list) option" where
  "key_values_node self v tree p =
     (if has_key_values self v then
        (case (v, key_values self) of
           (JObj d, Some (field_key # field_values)) \<Rightarrow>
             (if dict_contains d field_key \<and> list_all (dict_contains d) field_values then
                Some (case dict_getitem d field_key of
                        Inl e \<Rightarrow> Inl e
                      | Inr t \<Rightarrow>
                          (case getitems d field_values of
                             Inl e \<Rightarrow> Inl e
                           | Inr vs \<Rightarrow>
                               Inr (tree @ [\<lparr>parent = p, label = TextValue t,
                                             row_values = vs, opened = False\<rparr>])))
              else None)
         | (_, Some []) \<Rightarrow> Some (Inl IndexError)
         | _ \<Rightarrow> Some (Inl TypeError))
      else None)"

definition is_container :: "json \<Rightarrow> bool" where
  "is_container v = (case v of JObj _ \<Rightarrow> True | JArr _ \<Rightarrow> True | _ \<Rightarrow> False)"

definition len :: "json \<Rightarrow> nat" where
  "len v = (case v of JObj d \<Rightarrow> length d | JArr xs \<Rightarrow> length xs | _ \<Rightarrow> 0)"

text \<open>The decimal digits of a number, as \<open>str\<close> writes them.\<close>

fun str_of_nat :: "nat \<Rightarrow> string" where
  "str_of_nat n =
     (if n < 10 then [char_of (48 + n)]
      else str_of_nat (n div 10) @ [char_of (48 + n mod 10)])"

text \<open>
  \<open>display_data\<close> with its two loops: \<open>display_dict\<close> is \<open>for key in data\<close> over the
  entries left, \<open>data[key]\<close> being the value of the entry, and \<open>display_list\<close> is
  \<open>for index, row in enumerate(data)\<close> from \<open>index\<close> on.
\<close>

fun display_data :: "TreeViewer \<Rightarrow> json \<Rightarrow> node list \<Rightarrow> node_id \<Rightarrow> error + node list"
  and display_dict ::
    "TreeViewer \<Rightarrow> (string \<times> json) list \<Rightarrow> node list \<Rightarrow> node_id \<Rightarrow> error + node list"
  and display_list ::
    "TreeViewer \<Rightarrow> nat \<Rightarrow> json list \<Rightarrow> node list \<Rightarrow> node_id \<Rightarrow> error + node list" where
  "display_data self (JObj d) tree p =
     (case key_values_node self (JObj d) tree p of
        Some r \<Rightarrow> r
      | None \<Rightarrow> display_dict self d tree p)"
| "display_data self (JArr xs) tree p = display_list self 0 xs tree p"
| "display_data self v tree p =
     Inr (tree @ [\<lparr>parent = p, label = NoText, row_values = [v], opened = False\<rparr>])"
| "display_dict self [] tree p = Inr tree"
| "display_dict self ((key, v) # rest) tree p =
     (if is_container v then
        (case display_data self v
                (tree @ [\<lparr>parent = p, label = TextKey key,
                          row_values = [JStr (str_of_nat (len v) @ '' item(s)'')],
                          opened = (\<not> collapsed self)\<rparr>])
                (Item (length tree)) of
           Inl e \<Rightarrow> Inl e
         | Inr tree' \<Rightarrow> display_dict self rest tree' p)
      else
        display_dict self rest
          (tree @ [\<lparr>parent = p, label = TextKey key, row_values = [v], opened = False\<rparr>]) p)"
| "display_list self index [] tree p = Inr tree"
| "display_list self index (row # rest) tree p =
     (if has_key_values self row then
        (case display_data self row tree p of
           Inl e \<Rightarrow> Inl e
         | Inr tree' \<Rightarrow> display_list self (Suc index) rest tree' p)
      else if is_container row then
        (case display_data self row
                (tree @ [\<lparr>parent = p, label = TextIndex index, row_values = [],
                          opened = (\<not> collapsed self)\<rparr>])
                (Item (length tree)) of
           Inl e \<Rightarrow> Inl e
         | Inr tree' \<Rightarrow> display_list self (Suc index) rest tree' p)
      else
        display_list self (Suc index) rest
          (tree @ [\<lparr>parent = p, label = TextIndex index, row_values = [row],
                    opened = False\<rparr>]) p)"

text \<open>
  \<open>create_widgets\<close> up to the call of \<open>display_data\<close> on an empty tree: the column of the
  tree is \<open>self.key_values[0]\<close>, read before anything is displayed.
\<close>

definition create_widgets :: "TreeViewer \<Rightarrow> json \<Rightarrow> error + node list" where
  "create_widgets self v =
     (case key_values self of
        Some [] \<Rightarrow> Inl IndexError
      | _ \<Rightarrow> display_data self v [] Root)"

section \<open>Properties of TabularData\<close>

lemma types_of_row_length:
  "types_of_row L c row types = Inr types' \<Longrightarrow> length types' = length types"
  by (induction row arbitrary: c types) (auto split: if_splits)

lemma types_of_row_Inl:
  "types_of_row L c row types = Inl e \<Longrightarrow> e = IndexError \<and> length types < c + length row"
  by (induction row arbitrary: c types) (fastforce split: if_splits)+

lemma types_of_row_wide:
  "c \<le> length types \<Longrightarrow> length types < c + length row \<Longrightarrow>
   types_of_row L c row types = Inl IndexError"
proof (induction row arbitrary: c types)
  case Nil
  then show ?case by simp
next
  case (Cons v rest)
  show ?case
  proof (cases "length types \<le> c")
    case True
    then show ?thesis by simp
  next
    case False
    then have "Suc c \<le> length types" by simp
    moreover have "length types < Suc c + length rest" using Cons.prems by simp
    ultimately have "\<And>ts. length ts = length types \<Longrightarrow>
        types_of_row L (Suc c) rest ts = Inl IndexError"
      using Cons.IH by metis
    with False show ?thesis by simp
  qed
qed

lemma types_of_row_STRING:
  "types_of_row L c row types = Inr types' \<Longrightarrow> i < length types \<Longrightarrow>
   (types' ! i = STRING) =
   (types ! i = STRING \<or>
     (c \<le> i \<and> i - c < length row \<and> strip L (row ! (i - c)) \<noteq> '''' \<and>
        \<not> parse_float L (row ! (i - c))))"
proof (induction row arbitrary: c types)
  case Nil
  then show ?case by simp
next
  case (Cons v rest)
  from Cons.prems(1) have c: "c < length types" by (auto split: if_splits)
  have nth: "\<And>j. c \<le> j \<Longrightarrow> (v # rest) ! (j - c) = (if j = c then v else rest ! (j - Suc c))"
    by (auto simp: nth_Cons')
  show ?case
  proof (cases "types ! c = STRING \<or> strip L v = ''''")
    case True
    with Cons.prems c have "types_of_row L (Suc c) rest types = Inr types'" by auto
    from Cons.IH[OF this Cons.prems(2)] True show ?thesis
      using nth[of i] by (cases "i = c") (auto simp: Suc_le_eq)
  next
    case False
    show ?thesis
    proof (cases "parse_float L v")
      case True
      with False Cons.prems c
      have "types_of_row L (Suc c) rest (types[c := NUMBER]) = Inr types'" by auto
      from Cons.IH[OF this] Cons.prems(2) False True show ?thesis
        using nth[of i] by (cases "i = c") (auto simp: Suc_le_eq)
    next
      case nf: False
      with False Cons.prems c
      have "types_of_row L (Suc c) rest (types[c := STRING]) = Inr types'" by auto
      from Cons.IH[OF this] Cons.prems(2) False nf show ?thesis
        using nth[of i] by (cases "i = c") (auto simp: Suc_le_eq)
    qed
  qed
qed

lemma types_of_rows_length:
  "types_of_rows L w rows types = Inr types' \<Longrightarrow> length types' = length types"
proof (induction rows arbitrary: types)
  case Nil
  then show ?case by simp
next
  case (Cons row rows)
  then show ?case
    by (auto split: if_splits sum.splits dest: types_of_row_length)
qed

lemma types_of_rows_Inl:
  "types_of_rows L w rows types = Inl e \<Longrightarrow>
   e = IndexError \<and> (\<exists>row\<in>set rows. length types < length row)"
proof (induction rows arbitrary: types)
  case Nil
  then show ?case by simp
next
  case (Cons row rows)
  show ?case
  proof (cases "types_of_row L 0 row types")
    case (Inl e')
    with Cons.prems have "e = e'" by (auto split: if_splits)
    with types_of_row_Inl[OF Inl] show ?thesis by auto
  next
    case (Inr types')
    with Cons.prems have "types_of_rows L w rows types' = Inl e" by (auto split: if_splits)
    from Cons.IH[OF this] types_of_row_length[OF Inr] show ?thesis by auto
  qed
qed

lemma types_of_rows_STRING:
  "types_of_rows L w rows types = Inr types' \<Longrightarrow> length types = w \<Longrightarrow> i < w \<Longrightarrow>
   (types' ! i = STRING) =
   (types ! i = STRING \<or>
     (\<exists>row\<in>set rows. i < length row \<and> strip L (row ! i) \<noteq> '''' \<and> \<not> parse_float L (row ! i)))"
proof (induction rows arbitrary: types)
  case Nil
  then show ?case by simp
next
  case (Cons row rows)
  show ?case
  proof (cases "types = replicate w STRING")
    case True
    with Cons.prems(3) have "types ! i = STRING" by simp
    moreover from True Cons.prems(1) have "types' = types" by simp
    ultimately show ?thesis by simp
  next
    case False
    with Cons.prems(1) obtain types1 where
      r: "types_of_row L 0 row types = Inr types1" and
      rs: "types_of_rows L w rows types1 = Inr types'"
      by (auto split: sum.splits)
    have len: "length types1 = w"
      using types_of_row_length[OF r] Cons.prems(2) by simp
    have "(types1 ! i = STRING) =
       (types ! i = STRING \<or>
         (i < length row \<and> strip L (row ! i) \<noteq> '''' \<and> \<not> parse_float L (row ! i)))"
      using types_of_row_STRING[OF r, of i] Cons.prems by simp
    with Cons.IH[OF rs len Cons.prems(3)] show ?thesis by auto
  qed
qed

lemma maximum_of_row_length:
  "maximum_of_row c row m = Inr m' \<Longrightarrow> length m' = length m"
  by (induction row arbitrary: c m) (auto split: if_splits)

lemma maximum_of_row_Inl:
  "maximum_of_row c row m = Inl e \<Longrightarrow> e = IndexError \<and> length m < c + length row"
  by (induction row arbitrary: c m) (fastforce split: if_splits)+

lemma maximum_of_row_wide:
  "c \<le> length m \<Longrightarrow> length m < c + length row \<Longrightarrow> maximum_of_row c row m = Inl IndexError"
proof (induction row arbitrary: c m)
  case Nil
  then show ?case by simp
next
  case (Cons v rest)
  show ?case
  proof (cases "length m \<le> c")
    case True
    then show ?thesis by simp
  next
    case False
    then have "Suc c \<le> length m" by simp
    moreover have "length m < Suc c + length rest" using Cons.prems by simp
    ultimately have "\<And>m'. length m' = length m \<Longrightarrow>
        maximum_of_row (Suc c) rest m' = Inl IndexError"
      using Cons.IH by metis
    with False show ?thesis by simp
  qed
qed

lemma maximum_of_rows_length:
  "maximum_of_rows rows m = Inr m' \<Longrightarrow> length m' = length m"
  by (induction rows arbitrary: m) (auto split: sum.splits dest: maximum_of_row_length)

lemma maximum_of_rows_Inl:
  "maximum_of_rows rows m = Inl e \<Longrightarrow>
   e = IndexError \<and> (\<exists>row\<in>set rows. length m < length row)"
proof (induction rows arbitrary: m)
  case Nil
  then show ?case by simp
next
  case (Cons row rows)
  show ?case
  proof (cases "maximum_of_row 0 row m")
    case (Inl e')
    with Cons.prems have "e = e'" by simp
    with maximum_of_row_Inl[OF Inl] show ?thesis by auto
  next
    case (Inr m')
    with Cons.prems have "maximum_of_rows rows m' = Inl e" by simp
    from Cons.IH[OF this] maximum_of_row_length[OF Inr] show ?thesis by auto
  qed
qed

lemma maximum_of_rows_wide:
  "\<exists>row\<in>set rows. length m < length row \<Longrightarrow> maximum_of_rows rows m = Inl IndexError"
proof (induction rows arbitrary: m)
  case Nil
  then show ?case by simp
next
  case (Cons row rows)
  show ?case
  proof (cases "length m < length row")
    case True
    then have "maximum_of_row 0 row m = Inl IndexError"
      by (intro maximum_of_row_wide) auto
    then show ?thesis by simp
  next
    case False
    with Cons.prems have ex: "\<exists>r\<in>set rows. length m < length r" by auto
    show ?thesis
    proof (cases "maximum_of_row 0 row m")
      case (Inl e)
      with maximum_of_row_Inl[OF Inl] show ?thesis by simp
    next
      case (Inr m')
      with ex maximum_of_row_length[OF Inr] have "maximum_of_rows rows m' = Inl IndexError"
        by (intro Cons.IH) simp
      with Inr show ?thesis by simp
    qed
  qed
qed

lemma import_data_Inl:
  "import_data L self d = Inl e \<longleftrightarrow>
     e = IndexError \<and> 2 \<le> length d \<and> (\<exists>row\<in>set (drop 1 d). length (d ! 0) < length row)"
proof (cases "length d < 2")
  case True
  then show ?thesis by (simp add: import_data_def)
next
  case False
  show ?thesis
  proof (cases "find_column_types L (length (d ! 0)) (drop 1 d)")
    case (Inl e')
    then have "e' = IndexError \<and> (\<exists>row\<in>set (drop 1 d). length (d ! 0) < length row)"
      unfolding find_column_types_def by (auto dest!: types_of_rows_Inl)
    with Inl False show ?thesis by (auto simp: import_data_def)
  next
    case (Inr types)
    show ?thesis
    proof (cases "\<exists>row\<in>set (drop 1 d). length (d ! 0) < length row")
      case True
      then have "find_maximum_length (d ! 0) (drop 1 d) = Inl IndexError"
        unfolding find_maximum_length_def by (intro maximum_of_rows_wide) simp
      with Inr False True show ?thesis by (auto simp: import_data_def)
    next
      case nowide: False
      have "\<And>e'. find_maximum_length (d ! 0) (drop 1 d) \<noteq> Inl e'"
        using nowide unfolding find_maximum_length_def
        by (auto dest!: maximum_of_rows_Inl)
      with Inr False nowide show ?thesis
        by (auto simp: import_data_def split: sum.splits)
    qed
  qed
qed

lemma strip_empty_iff: "strip L s = '''' \<longleftrightarrow> list_all (isspace L) s"
proof -
  have "dropWhile (isspace L) s = [] \<longleftrightarrow> list_all (isspace L) s"
    by (simp add: dropWhile_eq_Nil_conv list_all_iff)
  moreover have "dropWhile (isspace L) (rev (dropWhile (isspace L) s)) = [] \<longleftrightarrow>
      dropWhile (isspace L) s = []"
  proof
    assume a: "dropWhile (isspace L) (rev (dropWhile (isspace L) s)) = []"
    show "dropWhile (isspace L) s = []"
    proof (cases "dropWhile (isspace L) s")
      case Nil
      then show ?thesis .
    next
      case (Cons x xs)
      then have "\<not> isspace L x" by (metis hd_dropWhile list.sel(1) list.distinct(1))
      moreover from a Cons have "isspace L x"
        by (simp add: dropWhile_eq_Nil_conv)
      ultimately show ?thesis by simp
    qed
  qed (auto dest: set_dropWhileD)
  ultimately show ?thesis by (simp add: strip_def)
qed

text \<open>
  Claim C7. For every input of fewer than two rows, \<open>import_data\<close> raises no exception and
  leaves the model as it was; on a fresh TabularData the headings, the rows, the column
  types and the maximum lengths stay empty and the width stays zero.
\<close>

theorem import_data_too_few_rows:
  assumes "length d < 2"
  shows "import_data L self d = Inr self \<and>
         import_data L TabularData_init d =
           Inr \<lparr>headings = [], data = Flat [], width = 0, column_types = [],
                maximum_lengths = []\<rparr>"
  using assms by (simp add: import_data_def TabularData_init_def)

theorem import_data_too_few_rows_witness:
  "length [[''name'', ''size'']] < 2 \<and>
   import_data example_library TabularData_init [[''name'', ''size'']] =
     Inr \<lparr>headings = [], data = Flat [], width = 0, column_types = [],
          maximum_lengths = []\<rparr>"
proof -
  have h: "length [[''name'', ''size'']] < 2" by simp
  show ?thesis
    using h import_data_too_few_rows [OF h, of example_library TabularData_init]
    by (simp add: TabularData_init_def)
qed

text \<open>
  Claim C10. \<open>import_data\<close> raises exactly when there are at least two rows and some data
  row has more cells than the heading row, and what it raises is IndexError: it completes
  without exception only when every data row has at most as many cells as the heading
  row. The exception comes from the inference of the column types, which reads
  \<open>types[column]\<close> past the end, or, when that loop has stopped early, from the inference of
  the maximum lengths, which raises on every such input.
\<close>

theorem import_data_raises_on_wide_row:
  "(import_data L self d = Inl e \<longleftrightarrow>
      e = IndexError \<and> 2 \<le> length d \<and>
      (\<exists>row\<in>set (drop 1 d). length (d ! 0) < length row)) \<and>
   (find_column_types L w rows = Inl e \<longrightarrow>
      e = IndexError \<and> (\<exists>row\<in>set rows. w < length row)) \<and>
   (find_maximum_length hs rows = Inl e \<longleftrightarrow>
      e = IndexError \<and> (\<exists>row\<in>set rows. length hs < length row))"
proof (intro conjI)
  show "import_data L self d = Inl e \<longleftrightarrow>
      e = IndexError \<and> 2 \<le> length d \<and>
      (\<exists>row\<in>set (drop 1 d). length (d ! 0) < length row)"
    by (rule import_data_Inl)
  show "find_column_types L w rows = Inl e \<longrightarrow>
      e = IndexError \<and> (\<exists>row\<in>set rows. w < length row)"
    unfolding find_column_types_def by (auto dest!: types_of_rows_Inl)
  show "find_maximum_length hs rows = Inl e \<longleftrightarrow>
      e = IndexError \<and> (\<exists>row\<in>set rows. length hs < length row)"
    unfolding find_maximum_length_def
    using maximum_of_rows_Inl[of rows "map length hs" e]
      maximum_of_rows_wide[of rows "map length hs"]
    by auto
qed

theorem import_data_raises_on_wide_row_witness:
  "2 \<le> length [[''name''], [''a'', ''1'']] \<and>
   (\<exists>row\<in>set (drop 1 [[''name''], [''a'', ''1'']]).
      length ([[''name''], [''a'', ''1'']] ! 0) < length row) \<and>
   import_data example_library TabularData_init [[''name''], [''a'', ''1'']] = Inl IndexError"
  using import_data_raises_on_wide_row
    [of example_library TabularData_init "[[''name''], [''a'', ''1'']]" IndexError]
  by simp

text \<open>
  Claim C5. For every imported dataset (\<open>import_data\<close> has returned on at least two rows)
  and every column, the inferred type is STRING if and only if some data row has at that
  column a cell that is not blank after \<open>strip()\<close> and that \<open>float\<close> rejects; it is NUMBER
  if and only if every cell of the column is blank or parses as a float. A blank cell
  never forces a type. The list of types has one entry for each heading.
\<close>

theorem column_type_is_STRING_iff:
  assumes "import_data L self d = Inr t" and "2 \<le> length d" and "c < length (d ! 0)"
  shows "length (column_types t) = length (d ! 0) \<and>
         (column_types t ! c = STRING \<longleftrightarrow>
            (\<exists>row\<in>set (drop 1 d).
               c < length row \<and> strip L (row ! c) \<noteq> '''' \<and> \<not> parse_float L (row ! c))) \<and>
         (column_types t ! c = NUMBER \<longleftrightarrow>
            (\<forall>row\<in>set (drop 1 d).
               c < length row \<longrightarrow> strip L (row ! c) = '''' \<or> parse_float L (row ! c)))"
proof -
  from assms(1,2) obtain types where
    ft: "find_column_types L (length (d ! 0)) (drop 1 d) = Inr types" and
    ct: "column_types t = types"
    by (auto simp: import_data_def Let_def split: sum.splits)
  have len: "length types = length (d ! 0)"
    using ft types_of_rows_length unfolding find_column_types_def by fastforce
  have str: "(types ! c = STRING) =
      (\<exists>row\<in>set (drop 1 d).
         c < length row \<and> strip L (row ! c) \<noteq> '''' \<and> \<not> parse_float L (row ! c))"
    using types_of_rows_STRING[OF ft[unfolded find_column_types_def] _ assms(3)] assms(3)
    by simp
  have "(types ! c = NUMBER) = (types ! c \<noteq> STRING)"
    by (cases "types ! c") simp_all
  with str len ct show ?thesis by auto
qed

theorem column_type_is_STRING_iff_witness:
  "import_data example_library TabularData_init
      [[''name'', ''size''], [''a'', ''1''], [''b'', '' ''], [''7'', ''2'']] =
     Inr \<lparr>headings = [''name'', ''size''],
          data = Flat [[''a'', ''1''], [''b'', '' ''], [''7'', ''2'']],
          width = 2, column_types = [STRING, NUMBER], maximum_lengths = [4, 4]\<rparr> \<and>
   [STRING, NUMBER] ! 0 = STRING \<and>
   (\<exists>row\<in>set [[''a'', ''1''], [''b'', '' ''], [''7'', ''2'']].
      strip example_library (row ! 0) \<noteq> '''' \<and> \<not> parse_float example_library (row ! 0))"
proof -
  let ?d = "[[''name'', ''size''], [''a'', ''1''], [''b'', '' ''], [''7'', ''2'']]"
  let ?t = "\<lparr>headings = [''name'', ''size''],
          data = Flat [[''a'', ''1''], [''b'', '' ''], [''7'', ''2'']],
          width = 2, column_types = [STRING, NUMBER], maximum_lengths = [4, 4]\<rparr>"
  have h1: "import_data example_library TabularData_init ?d = Inr ?t"
    by (simp add: import_data_def TabularData_init_def find_column_types_def
        find_maximum_length_def example_library_def strip_def is_digits_def)
  have h2: "2 \<le> length ?d" by simp
  have h3: "0 < length (?d ! 0)" by simp
  show ?thesis
    using h1 column_type_is_STRING_iff [OF h1 h2 h3] by simp
qed

section \<open>Iteration and grouping\<close>

subsection \<open>insertable_items\<close>

lemma items_of_groups_concat:
  "distinct (map fst d) \<Longrightarrow> set d' \<subseteq> set d \<Longrightarrow>
   items_of_groups d (map fst d') =
     concat (map (\<lambda>(g, rows). ('''', GroupName g) # map (\<lambda>row. (g, Row row)) rows) d')"
proof (induction d')
  case Nil
  then show ?case by simp
next
  case (Cons p d')
  obtain g rows where p: "p = (g, rows)" by (cases p)
  with Cons.prems have "map_of d g = Some rows" by (intro map_of_is_SomeI) auto
  then have "rows_of d g = rows" by (simp add: rows_of_def)
  with Cons p show ?case by simp
qed

text \<open>
  Claim C6. \<open>insertable_items\<close> is a function of the model alone and returns a list: the
  sequence is finite, and every call yields it again from its start, the model being left
  as it is. For a flat model it is one pair \<open>('', row)\<close> for each row in the original
  order. For a grouped model (a dictionary, whose keys are distinct) it is, for each group
  in the order of the dictionary, the pair \<open>('', group)\<close> followed at once by the pairs
  \<open>(group, row)\<close> of the rows of that group, the groups one after the other; so there is
  one pair for each group and one for each row.
\<close>

theorem insertable_items_sequence:
  "(data self = Flat rows \<longrightarrow>
      insertable_items self = map (\<lambda>row. ('''', Row row)) rows) \<and>
   (data self = Grouped groups \<and> distinct (map fst groups) \<longrightarrow>
      insertable_items self =
        concat (map (\<lambda>(g, rows). ('''', GroupName g) # map (\<lambda>row. (g, Row row)) rows) groups) \<and>
      length (insertable_items self) = length groups + length (concat (map snd groups)))"
proof (intro conjI impI)
  assume "data self = Flat rows"
  then show "insertable_items self = map (\<lambda>row. ('''', Row row)) rows"
    by (simp add: insertable_items_def)
next
  assume a: "data self = Grouped groups \<and> distinct (map fst groups)"
  then show eq: "insertable_items self =
      concat (map (\<lambda>(g, rows). ('''', GroupName g) # map (\<lambda>row. (g, Row row)) rows) groups)"
    using items_of_groups_concat[of groups groups] by (simp add: insertable_items_def)
  have "length (concat (map (\<lambda>(g, rows). ('''', GroupName g) # map (\<lambda>row. (g, Row row)) rows) gs))
      = length gs + length (concat (map snd gs))" for gs :: "(string \<times> string list list) list"
    by (induction gs) auto
  with eq show "length (insertable_items self) = length groups + length (concat (map snd groups))"
    by simp
qed

theorem insertable_items_sequence_witness:
  "distinct (map fst [(''x'', [[''1''], [''2'']]), (''y'', [[''3'']])]) \<and>
   insertable_items
     \<lparr>headings = [''n''], data = Grouped [(''x'', [[''1''], [''2'']]), (''y'', [[''3'']])],
      width = 2, column_types = [NUMBER], maximum_lengths = [1]\<rparr> =
   [('''', GroupName ''x''), (''x'', Row [''1'']), (''x'', Row [''2'']),
    ('''', GroupName ''y''), (''y'', Row [''3''])] \<and>
   insertable_items
     \<lparr>headings = [''n''], data = Flat [[''1''], [''2'']],
      width = 1, column_types = [NUMBER], maximum_lengths = [1]\<rparr> =
   [('''', Row [''1'']), ('''', Row [''2''])]"
  using insertable_items_sequence
    [of "\<lparr>headings = [''n''], data = Grouped [(''x'', [[''1''], [''2'']]), (''y'', [[''3'']])],
      width = 2, column_types = [NUMBER], maximum_lengths = [1]\<rparr>"
      "[]" "[(''x'', [[''1''], [''2'']]), (''y'', [[''3'']])]"]
    insertable_items_sequence
    [of "\<lparr>headings = [''n''], data = Flat [[''1''], [''2'']],
      width = 1, column_types = [NUMBER], maximum_lengths = [1]\<rparr>"
      "[[''1''], [''2'']]" "[]"]
  by simp

subsection \<open>group_by\<close>

lemma first_seen_set: "set (first_seen xs) = set xs"
  by (induction xs) auto

lemma first_seen_distinct: "distinct (first_seen xs)"
  by (induction xs) (auto simp: first_seen_set)

lemma map_fst_group_append: "map fst (group_append g k r) = map fst g"
  by (induction g) (auto simp: group_append_def)

lemma map_of_group_append:
  "map_of (group_append g k r) k' =
     (case map_of g k' of None \<Rightarrow> None | Some rs \<Rightarrow> Some (if k' = k then rs @ [r] else rs))"
  by (induction g) (auto simp: group_append_def)

lemma rows_of_group_append:
  "rows_of (group_append g k r) k' =
     (if k' = k \<and> k \<in> set (map fst g) then rows_of g k @ [r] else rows_of g k')"
proof -
  have "k \<in> set (map fst g) \<longleftrightarrow> map_of g k \<noteq> None"
    by (simp add: map_of_eq_None_iff)
  then show ?thesis
    by (cases "map_of g k'") (auto simp: rows_of_def map_of_group_append)
qed

lemma mset_group_append:
  "distinct (map fst g) \<Longrightarrow> k \<in> set (map fst g) \<Longrightarrow>
   mset (concat (map snd (group_append g k r))) = add_mset r (mset (concat (map snd g)))"
proof (induction g)
  case Nil
  then show ?case by simp
next
  case (Cons p g)
  obtain k' rs where p: "p = (k', rs)" by (cases p)
  show ?case
  proof (cases "k' = k")
    case True
    with Cons.prems p have "k \<notin> set (map fst g)" by auto
    then have "group_append g k r = g"
      by (induction g) (auto simp: group_append_def)
    with True p show ?thesis by (simp add: group_append_def)
  next
    case False
    with Cons p have "mset (concat (map snd (group_append g k r))) =
        add_mset r (mset (concat (map snd g)))" by auto
    with False p show ?thesis by (simp add: group_append_def)
  qed
qed

lemma rows_of_new_key:
  "k \<notin> set (map fst g) \<Longrightarrow>
   rows_of (g @ [(k, [r])]) k' = (if k' = k then [r] else rows_of g k')"
  by (auto simp: rows_of_def map_add_def map_of_eq_None_iff[THEN iffD2] split: option.splits)

lemma group_values_result:
  assumes "\<forall>row\<in>set rows. in_range (length row) c" and "distinct (map fst g0)"
  shows "\<exists>g. group_values c rows g0 = Inr g \<and> distinct (map fst g) \<and>
           map fst g = map fst g0 @
             filter (\<lambda>k. k \<notin> set (map fst g0))
               (first_seen (map (\<lambda>row. row ! py_pos (length row) c) rows)) \<and>
           (\<forall>k. rows_of g k = rows_of g0 k @
              map (\<lambda>row. without row c)
                (filter (\<lambda>row. row ! py_pos (length row) c = k) rows)) \<and>
           mset (concat (map snd g)) =
             mset (concat (map snd g0)) + mset (map (\<lambda>row. without row c) rows)"
  using assms
proof (induction rows arbitrary: g0)
  case Nil
  then show ?case by simp
next
  case (Cons row rows)
  let ?key = "\<lambda>row. row ! py_pos (length row) c"
  let ?k = "?key row"
  let ?r = "without row c"
  from Cons.prems(1) have inr: "in_range (length row) c"
    and rest: "\<forall>row\<in>set rows. in_range (length row) c" by auto
  show ?case
  proof (cases "?k \<in> set (map fst g0)")
    case True
    let ?g1 = "group_append g0 ?k ?r"
    have step: "group_values c (row # rows) g0 = group_values c rows ?g1"
      using inr True by (simp add: getitem_def delitem_def dict_contains_def)
    have keys1: "map fst ?g1 = map fst g0" by (rule map_fst_group_append)
    with Cons.prems(2) have d1: "distinct (map fst ?g1)" by simp
    from Cons.IH[OF rest d1] obtain g where
      g: "group_values c rows ?g1 = Inr g" "distinct (map fst g)"
      and keys: "map fst g = map fst ?g1 @
             filter (\<lambda>k. k \<notin> set (map fst ?g1)) (first_seen (map ?key rows))"
      and look: "\<And>k. rows_of g k = rows_of ?g1 k @
              map (\<lambda>row. without row c) (filter (\<lambda>row. ?key row = k) rows)"
      and ms: "mset (concat (map snd g)) =
             mset (concat (map snd ?g1)) + mset (map (\<lambda>row. without row c) rows)"
      by blast
    have "filter (\<lambda>k. k \<notin> set (map fst g0)) (first_seen (map ?key (row # rows))) =
          filter (\<lambda>k. k \<notin> set (map fst g0)) (first_seen (map ?key rows))"
      using True by (auto intro: filter_cong)
    with keys keys1 have k': "map fst g = map fst g0 @
        filter (\<lambda>k. k \<notin> set (map fst g0)) (first_seen (map ?key (row # rows)))"
      by simp
    have l': "rows_of g k = rows_of g0 k @
        map (\<lambda>row. without row c) (filter (\<lambda>row. ?key row = k) (row # rows))" for k
      using look[of k] True by (simp add: rows_of_group_append)
    have m': "mset (concat (map snd g)) =
        mset (concat (map snd g0)) + mset (map (\<lambda>row. without row c) (row # rows))"
      using ms mset_group_append[OF Cons.prems(2) True, of ?r] by simp
    from step g k' l' m' show ?thesis by auto
  next
    case False
    let ?g1 = "g0 @ [(?k, [?r])]"
    have step: "group_values c (row # rows) g0 = group_values c rows ?g1"
      using inr False by (simp add: getitem_def delitem_def dict_contains_def)
    have keys1: "map fst ?g1 = map fst g0 @ [?k]" by simp
    with Cons.prems(2) False have d1: "distinct (map fst ?g1)" by simp
    from Cons.IH[OF rest d1] obtain g where
      g: "group_values c rows ?g1 = Inr g" "distinct (map fst g)"
      and keys: "map fst g = map fst ?g1 @
             filter (\<lambda>k. k \<notin> set (map fst ?g1)) (first_seen (map ?key rows))"
      and look: "\<And>k. rows_of g k = rows_of ?g1 k @
              map (\<lambda>row. without row c) (filter (\<lambda>row. ?key row = k) rows)"
      and ms: "mset (concat (map snd g)) =
             mset (concat (map snd ?g1)) + mset (map (\<lambda>row. without row c) rows)"
      by blast
    have "filter (\<lambda>k. k \<notin> set (map fst g0)) (first_seen (map ?key (row # rows))) =
          ?k # filter (\<lambda>k. k \<notin> set (map fst ?g1)) (first_seen (map ?key rows))"
      using False by (auto intro: filter_cong)
    with keys keys1 have k': "map fst g = map fst g0 @
        filter (\<lambda>k. k \<notin> set (map fst g0)) (first_seen (map ?key (row # rows)))"
      by simp
    have none: "rows_of g0 ?k = []"
      using False by (simp add: rows_of_def map_of_eq_None_iff[THEN iffD2])
    have l': "rows_of g k = rows_of g0 k @
        map (\<lambda>row. without row c) (filter (\<lambda>row. ?key row = k) (row # rows))" for k
      using look[of k] False none by (auto simp: rows_of_new_key)
    have m': "mset (concat (map snd g)) =
        mset (concat (map snd g0)) + mset (map (\<lambda>row. without row c) (row # rows))"
      using ms by simp
    from step g k' l' m' show ?thesis by auto
  qed
qed

lemma group_values_Inl:
  "group_values c rows g0 = Inl e \<longleftrightarrow>
     e = IndexError \<and> (\<exists>row\<in>set rows. \<not> in_range (length row) c)"
proof (induction rows arbitrary: g0)
  case Nil
  then show ?case by simp
next
  case (Cons row rows)
  show ?case
  proof (cases "in_range (length row) c")
    case True
    then show ?thesis
      by (simp add: getitem_def delitem_def Cons.IH)
  next
    case False
    then show ?thesis
      by (auto simp: getitem_def)
  qed
qed

lemma first_seen_remdups: "first_seen xs = rev (remdups (rev xs))"
proof (induction xs)
  case Nil
  then show ?case by simp
next
  case (Cons x xs)
  have "remdups (ys @ [x]) = filter (\<lambda>y. y \<noteq> x) (remdups ys) @ [x]" for ys :: "'a list"
    by (induction ys) auto
  then have "rev (remdups (rev (x # xs))) = x # filter (\<lambda>y. y \<noteq> x) (rev (remdups (rev xs)))"
    by (simp add: rev_filter)
  with Cons show ?case by simp
qed

lemma length_without: "in_range (length xs) i \<Longrightarrow> Suc (length (without xs i)) = length xs"
  by (auto simp: without_def in_range_def py_pos_def)

lemma import_data_lengths:
  assumes "import_data L self d = Inr t" and "2 \<le> length d"
  shows "headings t = d ! 0 \<and> data t = Flat (drop 1 d) \<and>
         length (column_types t) = length (d ! 0) \<and>
         length (maximum_lengths t) = length (d ! 0)"
proof -
  from assms obtain types maximum where
    ft: "find_column_types L (length (d ! 0)) (drop 1 d) = Inr types" and
    fm: "find_maximum_length (d ! 0) (drop 1 d) = Inr maximum" and
    t: "t = self\<lparr>headings := d ! 0, data := Flat (drop 1 d), width := length (d ! 0),
                  column_types := types, maximum_lengths := maximum\<rparr>"
    by (auto simp: import_data_def Let_def split: sum.splits)
  have "length types = length (d ! 0)"
    using ft types_of_rows_length unfolding find_column_types_def by fastforce
  moreover have "length maximum = length (d ! 0)"
    using fm maximum_of_rows_length unfolding find_maximum_length_def by fastforce
  ultimately show ?thesis using t by simp
qed

subsection \<open>Rows as list objects\<close>

text \<open>
  When the identifiers are distinct, every list is an object of its own: the heap holds each
  list under its identifier, and \<open>group_rows\<close> computes on the objects what \<open>group_values\<close>
  computes on their values.
\<close>

lemma heap_of_nth:
  "distinct ids \<Longrightarrow> length ids = length xs \<Longrightarrow> i < length ids \<Longrightarrow>
   heap_of ids xs (ids ! i) = xs ! i"
proof (induction ids xs arbitrary: i rule: heap_of.induct)
  case (1 r rs x xs)
  show ?case
  proof (cases i)
    case 0
    then show ?thesis by simp
  next
    case (Suc j)
    with "1.prems" have "rs ! j \<noteq> r" by auto
    moreover from Suc "1.prems" have "heap_of rs xs (rs ! j) = xs ! j"
      by (intro "1.IH") auto
    ultimately show ?thesis using Suc by simp
  qed
qed simp_all

lemma heap_of_fresh:
  "distinct ids \<Longrightarrow> length ids = length xs \<Longrightarrow> map (heap_of ids xs) ids = xs"
  by (rule nth_equalityI) (simp_all add: heap_of_nth)

lemma contents_group_append:
  "contents h (group_append g k r) = group_append (contents h g) k (h r)"
  by (induction g) (auto simp: contents_def group_append_def)

lemma contents_unchanged:
  "\<forall>r\<in>set (concat (map snd g)). h' r = h r \<Longrightarrow> contents h' g = contents h g"
  by (induction g) (auto simp: contents_def)

lemma contains_contents: "dict_contains (contents h g) k = dict_contains g k"
  by (induction g) (auto simp: contents_def dict_contains_def)

lemma refs_group_append:
  "set (concat (map snd (group_append g k r))) \<subseteq> insert r (set (concat (map snd g)))"
  by (fastforce simp: group_append_def split: if_splits)

lemma group_rows_values:
  assumes "distinct rows" and "set rows \<inter> set (concat (map snd g)) = {}"
  shows "(group_rows c rows h g = Inl e \<longrightarrow>
            group_values c (map h rows) (contents h g) = Inl e) \<and>
         (group_rows c rows h g = Inr (h', g') \<longrightarrow>
            group_values c (map h rows) (contents h g) = Inr (contents h' g') \<and>
            (\<forall>r. r \<notin> set rows \<longrightarrow> h' r = h r) \<and>
            set (concat (map snd g')) \<subseteq> set (concat (map snd g)) \<union> set rows)"
  using assms
proof (induction rows arbitrary: h g)
  case Nil
  then show ?case by auto
next
  case (Cons r rows)
  show ?case
  proof (cases "in_range (length (h r)) c")
    case False
    then show ?thesis by (simp add: getitem_def)
  next
    case True
    let ?k = "h r ! py_pos (length (h r)) c"
    let ?h1 = "h(r := without (h r) c)"
    let ?g1 = "if dict_contains g ?k then group_append g ?k r else g @ [(?k, [r])]"
    from Cons.prems have r: "r \<notin> set rows" "r \<notin> set (concat (map snd g))"
      and d: "distinct rows" and disj: "set rows \<inter> set (concat (map snd g)) = {}"
      by auto
    have refs1: "set (concat (map snd ?g1)) \<subseteq> insert r (set (concat (map snd g)))"
      using refs_group_append[of g ?k r] by auto
    have disj1: "set rows \<inter> set (concat (map snd ?g1)) = {}"
      using refs1 r(1) disj by blast
    have step: "group_rows c (r # rows) h g = group_rows c rows ?h1 ?g1"
      using True by (simp add: getitem_def delitem_def)
    have m: "map ?h1 rows = map h rows"
      using r(1) by (intro map_cong) auto
    have cg: "contents ?h1 g = contents h g"
      using r(2) by (intro contents_unchanged) auto
    have c1: "contents ?h1 ?g1 =
        (if dict_contains (contents h g) ?k
         then group_append (contents h g) ?k (without (h r) c)
         else contents h g @ [(?k, [without (h r) c])])"
    proof (cases "dict_contains g ?k")
      case True
      then show ?thesis
        using cg by (simp add: contents_group_append contains_contents)
    next
      case False
      then show ?thesis
        using cg by (simp add: contains_contents) (simp add: contents_def)
    qed
    have vstep: "group_values c (map h (r # rows)) (contents h g) =
        group_values c (map ?h1 rows) (contents ?h1 ?g1)"
      using True unfolding c1 m by (simp add: getitem_def delitem_def)
    from Cons.IH[OF d disj1, of ?h1]
    have IH: "(group_rows c rows ?h1 ?g1 = Inl e \<longrightarrow>
            group_values c (map ?h1 rows) (contents ?h1 ?g1) = Inl e) \<and>
         (group_rows c rows ?h1 ?g1 = Inr (h', g') \<longrightarrow>
            group_values c (map ?h1 rows) (contents ?h1 ?g1) = Inr (contents h' g') \<and>
            (\<forall>x. x \<notin> set rows \<longrightarrow> h' x = ?h1 x) \<and>
            set (concat (map snd g')) \<subseteq> set (concat (map snd ?g1)) \<union> set rows)" .
    show ?thesis
    proof (intro conjI impI)
      assume "group_rows c (r # rows) h g = Inl e"
      with step IH vstep
      show "group_values c (map h (r # rows)) (contents h g) = Inl e" by simp
    next
      assume "group_rows c (r # rows) h g = Inr (h', g')"
      with step IH have
        v: "group_values c (map ?h1 rows) (contents ?h1 ?g1) = Inr (contents h' g')" and
        u: "\<forall>x. x \<notin> set rows \<longrightarrow> h' x = ?h1 x" and
        s: "set (concat (map snd g')) \<subseteq> set (concat (map snd ?g1)) \<union> set rows"
        by simp_all
      from v vstep
      show "group_values c (map h (r # rows)) (contents h g) = Inr (contents h' g')" by simp
      from u show "\<forall>x. x \<notin> set (r # rows) \<longrightarrow> h' x = h x" by simp
      from s refs1
      show "set (concat (map snd g')) \<subseteq> set (concat (map snd g)) \<union> set (r # rows)"
        by (simp only: list.set) blast
    qed
  qed
qed

text \<open>
  Claim C3 as stated fails for a column index that is valid for the headings, the column
  types and the maximum lengths, but not for every data row. \<open>import_data\<close> accepts rows
  shorter than the heading row (a blank line of the output is the row of one empty cell),
  and \<open>group_by(1)\<close> then raises IndexError at \<open>row[column]\<close>. It fails as well where a
  list object occurs twice among the rows: \<open>del row[column]\<close> shortens the object at its
  first visit, and \<open>row[column]\<close> raises IndexError at the second.
\<close>

theorem group_by_ragged_counterexample:
  "import_data example_library TabularData_init [[''name'', ''kind''], [''a'', ''x''], ['''']] =
     Inr \<lparr>headings = [''name'', ''kind''], data = Flat [[''a'', ''x''], ['''']],
          width = 2, column_types = [STRING, STRING], maximum_lengths = [4, 4]\<rparr> \<and>
   in_range (length [''name'', ''kind'']) 1 \<and>
   group_by
     \<lparr>headings = [''name'', ''kind''], data = Flat [[''a'', ''x''], ['''']],
      width = 2, column_types = [STRING, STRING], maximum_lengths = [4, 4]\<rparr>
     0 [1, 2] 1 = Inl IndexError \<and>
   import_data example_library TabularData_init
       [[''name'', ''kind''], [''a'', ''x''], [''a'', ''x'']] =
     Inr \<lparr>headings = [''name'', ''kind''], data = Flat [[''a'', ''x''], [''a'', ''x'']],
          width = 2, column_types = [STRING, STRING], maximum_lengths = [4, 4]\<rparr> \<and>
   group_by
     \<lparr>headings = [''name'', ''kind''], data = Flat [[''a'', ''x''], [''a'', ''x'']],
      width = 2, column_types = [STRING, STRING], maximum_lengths = [4, 4]\<rparr>
     0 [1, 1] 1 = Inl IndexError"
  by (simp add: import_data_def TabularData_init_def find_column_types_def
      find_maximum_length_def example_library_def strip_def is_digits_def
      group_by_def getitem_def delitem_def without_def in_range_def py_pos_def
      dict_contains_def)

text \<open>
  Claim C3, amended. For every imported dataset (\<open>import_data\<close> has returned on at least
  two rows) whose heading row and data rows are list objects different from one another,
  as \<open>import_raw_data\<close> builds them: if the column index \<open>c\<close> is a valid index of every
  data row (Python's range, negative indices counting from the end), \<open>group_by(c)\<close>
  returns; headings, column types and maximum lengths are each one element shorter, and of
  equal length; the rows become a dictionary with distinct keys, in the order in which the
  cells of column \<open>c\<close> are seen for the first time; under a key are the rows whose cell
  at \<open>c\<close> is that key, in their original order and with that cell removed; and the rows
  of all the groups together are the original rows with the cell removed, each as often
  as it occurs. If \<open>c\<close> is no valid index of some data row, \<open>group_by(c)\<close> raises
  IndexError.
\<close>

theorem group_by_regroups:
  assumes imp: "import_data L self d = Inr t" and two: "2 \<le> length d"
    and ids: "distinct (heading_id # row_ids)" "length row_ids = length (drop 1 d)"
  shows "((\<forall>row\<in>set (drop 1 d). in_range (length row) c) \<longrightarrow>
      (\<exists>t' groups. group_by t heading_id row_ids c = Inr t' \<and>
        headings t' = without (d ! 0) c \<and>
        Suc (length (headings t')) = length (headings t) \<and>
        Suc (length (column_types t')) = length (column_types t) \<and>
        Suc (length (maximum_lengths t')) = length (maximum_lengths t) \<and>
        length (column_types t') = length (headings t') \<and>
        length (maximum_lengths t') = length (headings t') \<and>
        data t' = Grouped groups \<and> distinct (map fst groups) \<and>
        map fst groups = first_seen (map (\<lambda>row. row ! py_pos (length row) c) (drop 1 d)) \<and>
        (\<forall>(k, rows)\<in>set groups.
            rows = map (\<lambda>row. without row c)
                     (filter (\<lambda>row. row ! py_pos (length row) c = k) (drop 1 d))) \<and>
        mset (concat (map snd groups)) = mset (map (\<lambda>row. without row c) (drop 1 d)))) \<and>
     ((\<exists>row\<in>set (drop 1 d). \<not> in_range (length row) c) \<longrightarrow>
        group_by t heading_id row_ids c = Inl IndexError)"
proof -
  let ?rows = "drop 1 d"
  let ?key = "\<lambda>row. row ! py_pos (length row) c"
  let ?h0 = "heap_of (heading_id # row_ids) (d ! 0 # ?rows)"
  note fields = import_data_lengths[OF imp two]
  have len: "length (heading_id # row_ids) = length (d ! 0 # ?rows)"
    using ids(2) by simp
  from heap_of_fresh[OF ids(1) len]
  have h0: "?h0 heading_id = d ! 0" "map ?h0 row_ids = ?rows" by simp_all
  from ids(1) have dr: "distinct row_ids" and hid: "heading_id \<notin> set row_ids" by simp_all
  have rel: "(group_rows c row_ids ?h0 [] = Inl e \<longrightarrow>
            group_values c ?rows [] = Inl e) \<and>
         (group_rows c row_ids ?h0 [] = Inr (h', g') \<longrightarrow>
            group_values c ?rows [] = Inr (contents h' g') \<and>
            (\<forall>r. r \<notin> set row_ids \<longrightarrow> h' r = ?h0 r) \<and>
            set (concat (map snd g')) \<subseteq> set row_ids)" for e h' g'
    using group_rows_values[OF dr, of "[]" c ?h0 e h' g'] h0(2)
    by (simp add: contents_def)
  have loop: "data t = Flat ?rows" "headings t = d ! 0" using fields by simp_all
  show ?thesis
  proof (intro conjI impI)
    assume valid: "\<forall>row\<in>set ?rows. in_range (length row) c"
    from two obtain row where row: "row \<in> set ?rows"
      by (cases d; cases "tl d") auto
    have "\<not> length (d ! 0) < length row"
      using imp row two import_data_Inl[of L self d IndexError] by auto
    moreover from valid row have "in_range (length row) c" by blast
    ultimately have hr: "in_range (length (d ! 0)) c"
      by (auto simp: in_range_def)
    from group_values_result[OF valid, of "[]"] obtain g where
      g: "group_values c ?rows [] = Inr g" "distinct (map fst g)"
      and keys: "map fst g = first_seen (map ?key ?rows)"
      and look: "\<And>k. rows_of g k =
          map (\<lambda>row. without row c) (filter (\<lambda>row. ?key row = k) ?rows)"
      and ms: "mset (concat (map snd g)) = mset (map (\<lambda>row. without row c) ?rows)"
      by (auto simp: rows_of_def)
    obtain h' g' where res: "group_rows c row_ids ?h0 [] = Inr (h', g')"
    proof (cases "group_rows c row_ids ?h0 []")
      case (Inl e)
      with rel[of e] g(1) show ?thesis by simp
    next
      case (Inr p)
      then show ?thesis using that by (cases p) auto
    qed
    with rel[of _ h' g'] g(1) have cg: "contents h' g' = g"
      and same: "\<forall>r. r \<notin> set row_ids \<longrightarrow> h' r = ?h0 r"
      and refs: "set (concat (map snd g')) \<subseteq> set row_ids" by simp_all
    from same hid h0(1) have hh: "h' heading_id = d ! 0" by simp
    have "contents (h'(heading_id := without (d ! 0) c)) g' = contents h' g'"
      using refs hid by (intro contents_unchanged) auto
    with cg have cg': "contents (h'(heading_id := without (d ! 0) c)) g' = g" by simp
    let ?t' = "t\<lparr>headings := without (d ! 0) c, data := Grouped g,
                  maximum_lengths := without (maximum_lengths t) c,
                  column_types := without (column_types t) c\<rparr>"
    have gb: "group_by t heading_id row_ids c = Inr ?t'"
      using res hh cg' fields hr loop by (simp add: group_by_def delitem_def)
    have each: "\<forall>(k, rows)\<in>set g.
        rows = map (\<lambda>row. without row c) (filter (\<lambda>row. ?key row = k) ?rows)"
    proof clarify
      fix k rows assume "(k, rows) \<in> set g"
      with g(2) have "map_of g k = Some rows" by (rule map_of_is_SomeI)
      then have "rows_of g k = rows" by (simp add: rows_of_def)
      with look[of k]
      show "rows = map (\<lambda>row. without row c) (filter (\<lambda>row. ?key row = k) ?rows)"
        by simp
    qed
    have lens: "Suc (length (without (d ! 0) c)) = length (d ! 0)"
      "Suc (length (without (column_types t) c)) = length (column_types t)"
      "Suc (length (without (maximum_lengths t) c)) = length (maximum_lengths t)"
      using hr fields by (simp_all add: length_without)
    show "\<exists>t' groups. group_by t heading_id row_ids c = Inr t' \<and>
        headings t' = without (d ! 0) c \<and>
        Suc (length (headings t')) = length (headings t) \<and>
        Suc (length (column_types t')) = length (column_types t) \<and>
        Suc (length (maximum_lengths t')) = length (maximum_lengths t) \<and>
        length (column_types t') = length (headings t') \<and>
        length (maximum_lengths t') = length (headings t') \<and>
        data t' = Grouped groups \<and> distinct (map fst groups) \<and>
        map fst groups = first_seen (map ?key ?rows) \<and>
        (\<forall>(k, rows)\<in>set groups.
            rows = map (\<lambda>row. without row c) (filter (\<lambda>row. ?key row = k) ?rows)) \<and>
        mset (concat (map snd groups)) = mset (map (\<lambda>row. without row c) ?rows)"
      apply (rule exI[of _ ?t'], rule exI[of _ g])
      using gb g(2) keys each ms lens fields by simp
  next
    assume "\<exists>row\<in>set ?rows. \<not> in_range (length row) c"
    then have gv: "group_values c ?rows [] = Inl IndexError"
      by (simp add: group_values_Inl)
    have "group_rows c row_ids ?h0 [] = Inl IndexError"
    proof (cases "group_rows c row_ids ?h0 []")
      case (Inl e)
      with rel[of e] gv show ?thesis by simp
    next
      case (Inr p)
      obtain h' g' where "p = (h', g')" by (cases p)
      with Inr rel[of _ h' g'] gv show ?thesis by simp
    qed
    then show "group_by t heading_id row_ids c = Inl IndexError"
      using loop by (simp add: group_by_def)
  qed
qed

theorem group_by_regroups_witness:
  "distinct [0, 1, 2, 3 :: nat] \<and>
   list_all (\<lambda>row. in_range (length row) 1)
     (drop 1 [[''name'', ''kind''], [''a'', ''x''], [''b'', ''y''], [''c'', ''x'']]) \<and>
   group_by
     \<lparr>headings = [''name'', ''kind''],
      data = Flat [[''a'', ''x''], [''b'', ''y''], [''c'', ''x'']],
      width = 2, column_types = [STRING, STRING], maximum_lengths = [4, 4]\<rparr> 0 [1, 2, 3] 1 =
   Inr \<lparr>headings = [''name''],
        data = Grouped [(''x'', [[''a''], [''c'']]), (''y'', [[''b'']])],
        width = 2, column_types = [STRING], maximum_lengths = [4]\<rparr> \<and>
   (\<exists>row\<in>set (drop 1 [[''name'', ''kind''], [''a'', ''x''], ['''']]).
      \<not> in_range (length row) 1) \<and>
   group_by
     \<lparr>headings = [''name'', ''kind''], data = Flat [[''a'', ''x''], ['''']],
      width = 2, column_types = [STRING, STRING], maximum_lengths = [4, 4]\<rparr>
     0 [1, 2] 1 = Inl IndexError"
proof -
  let ?d = "[[''name'', ''kind''], [''a'', ''x''], [''b'', ''y''], [''c'', ''x'']]"
  let ?t = "\<lparr>headings = [''name'', ''kind''],
      data = Flat [[''a'', ''x''], [''b'', ''y''], [''c'', ''x'']],
      width = 2, column_types = [STRING, STRING], maximum_lengths = [4, 4]\<rparr>"
  let ?e = "[[''name'', ''kind''], [''a'', ''x''], ['''']]"
  let ?u = "\<lparr>headings = [''name'', ''kind''], data = Flat [[''a'', ''x''], ['''']],
      width = 2, column_types = [STRING, STRING], maximum_lengths = [4, 4]\<rparr>"
  have h1: "import_data example_library TabularData_init ?d = Inr ?t"
    by (simp add: import_data_def TabularData_init_def find_column_types_def
        find_maximum_length_def example_library_def strip_def is_digits_def)
  have h2: "2 \<le> length ?d" by simp
  have h3: "distinct (0 # [1, 2, 3 :: nat])" by simp
  have h4: "length [1, 2, 3 :: nat] = length (drop 1 ?d)" by simp
  have h5: "\<forall>row\<in>set (drop 1 ?d). in_range (length row) 1"
    by (simp add: in_range_def)
  have e1: "import_data example_library TabularData_init ?e = Inr ?u"
    by (simp add: import_data_def TabularData_init_def find_column_types_def
        find_maximum_length_def example_library_def strip_def is_digits_def)
  have e2: "2 \<le> length ?e" by simp
  have e3: "distinct (0 # [1, 2 :: nat])" by simp
  have e4: "length [1, 2 :: nat] = length (drop 1 ?e)" by simp
  have e5: "\<exists>row\<in>set (drop 1 ?e). \<not> in_range (length row) 1"
    by (simp add: in_range_def)
  have a: "group_by ?u 0 [1, 2] 1 = Inl IndexError"
    using group_by_regroups [OF e1 e2 e3 e4, of 1] e5 by blast
  show ?thesis
    using h5 e5 a group_by_regroups [OF h1 h2 h3 h4, of 1]
    by (simp add: group_by_def getitem_def delitem_def without_def in_range_def py_pos_def
        dict_contains_def group_append_def contents_def)
qed

section \<open>Properties of Action\<close>

subsection \<open>str.replace\<close>

lemma py_replace_no_occurrence:
  "old \<noteq> [] \<Longrightarrow> \<forall>i<length s. \<not> occurs_at old s i \<Longrightarrow> py_replace s old new = s"
proof (induction s)
  case Nil
  then show ?case by simp
next
  case (Cons c cs)
  from Cons.prems(2) have "\<not> occurs_at old (c # cs) 0" by auto
  then have here: "take (length old) (c # cs) \<noteq> old" by (simp add: occurs_at_def)
  have "\<forall>i<length cs. \<not> occurs_at old cs i"
  proof (intro allI impI)
    fix i assume "i < length cs"
    with Cons.prems(2) have "\<not> occurs_at old (c # cs) (Suc i)" by auto
    then show "\<not> occurs_at old cs i" by (simp add: occurs_at_def)
  qed
  with Cons.IH Cons.prems(1) have "py_replace cs old new = cs" by simp
  with here Cons.prems(1) show ?case by simp
qed

lemma py_replace_first_occurrence:
  "old \<noteq> [] \<Longrightarrow> \<forall>i<length pre. \<not> occurs_at old (pre @ old @ post) i \<Longrightarrow>
   py_replace (pre @ old @ post) old new = pre @ new @ py_replace post old new"
proof (induction pre)
  case Nil
  from Nil.prems(1) obtain c cs where old: "old = c # cs" by (cases old) auto
  then show ?case by simp
next
  case (Cons c pre)
  from Cons.prems(2) have "\<not> occurs_at old ((c # pre) @ old @ post) 0" by auto
  then have here: "take (length old) (c # pre @ old @ post) \<noteq> old"
    by (simp add: occurs_at_def)
  have "\<forall>i<length pre. \<not> occurs_at old (pre @ old @ post) i"
  proof (intro allI impI)
    fix i assume "i < length pre"
    with Cons.prems(2) have "\<not> occurs_at old ((c # pre) @ old @ post) (Suc i)" by auto
    then show "\<not> occurs_at old (pre @ old @ post) i" by (simp add: occurs_at_def)
  qed
  with Cons.IH Cons.prems(1)
  have "py_replace (pre @ old @ post) old new = pre @ new @ py_replace post old new" by simp
  with here Cons.prems(1) show ?case by simp
qed

subsection \<open>expand\<close>

lemma token_inject: "token a = token b \<longleftrightarrow> a = b"
  by (simp add: token_def)

lemma expand_token_bound:
  "x \<in> set keys \<Longrightarrow> expand_token values keys (token x) = Some (dict_getitem values x)"
  by (induction keys) (auto simp: token_inject)

lemma expand_token_None:
  "\<forall>k\<in>set keys. argument \<noteq> token k \<Longrightarrow> expand_token values keys argument = None"
  by (induction keys) auto

lemma expand_replace_text:
  "\<forall>k\<in>set keys. \<exists>v. map_of values k = Some v \<and> is_text v \<Longrightarrow>
   expand_replace values keys argument =
     Inr (foldl (\<lambda>a k. py_replace a (token k) (binding_text (the (map_of values k))))
            argument keys)"
proof (induction keys arbitrary: argument)
  case Nil
  then show ?case by simp
next
  case (Cons k keys)
  from Cons.prems obtain v where v: "map_of values k = Some v" "is_text v" by auto
  from Cons.prems have rest: "\<forall>k\<in>set keys. \<exists>v. map_of values k = Some v \<and> is_text v"
    by simp
  from v show ?case
    by (cases v) (simp_all add: Cons.IH[OF rest] dict_getitem_def is_text_def binding_text_def)
qed

lemma expand_replace_TypeError:
  "\<forall>k\<in>set keys. \<exists>v. map_of values k = Some v \<Longrightarrow>
   \<exists>k\<in>set keys. \<exists>v. map_of values k = Some v \<and> \<not> is_text v \<Longrightarrow>
   expand_replace values keys argument = Inl TypeError"
proof (induction keys arbitrary: argument)
  case Nil
  then show ?case by simp
next
  case (Cons k keys)
  from Cons.prems(1) obtain v where v: "map_of values k = Some v" by auto
  show ?case
  proof (cases "is_text v")
    case True
    with v Cons.prems(2)
    have ex: "\<exists>k\<in>set keys. \<exists>v. map_of values k = Some v \<and> \<not> is_text v" by auto
    from Cons.prems(1) have "\<forall>k\<in>set keys. \<exists>v. map_of values k = Some v" by simp
    from Cons.IH[OF this ex] v True show ?thesis
      by (cases v) (simp_all add: dict_getitem_def is_text_def)
  next
    case False
    with v show ?thesis
      by (cases v) (simp_all add: dict_getitem_def is_text_def)
  qed
qed

lemma foldl_bindings:
  "distinct (map fst values) \<Longrightarrow> set vs \<subseteq> set values \<Longrightarrow>
   foldl (\<lambda>a k. py_replace a (token k) (binding_text (the (map_of values k)))) argument
     (map fst vs) =
   foldl (\<lambda>a (k, v). py_replace a (token k) (binding_text v)) argument vs"
proof (induction vs arbitrary: argument)
  case Nil
  then show ?case by simp
next
  case (Cons p vs)
  obtain k v where p: "p = (k, v)" by (cases p)
  with Cons.prems have "map_of values k = Some v" by (intro map_of_is_SomeI) auto
  then have "binding_text (the (map_of values k)) = binding_text v" by simp
  moreover from Cons.prems have "set vs \<subseteq> set values" by simp
  ultimately show ?case using Cons.IH[OF Cons.prems(1)] p by simp
qed

text \<open>
  What \<open>run\<close> returns does not depend on the process primitive of the library beyond the
  output of the one call that \<open>run\<close> makes.
\<close>

lemma strip_subprocess_run: "strip (L\<lparr>subprocess_run := f\<rparr>) s = strip L s"
  by (simp add: strip_def)

lemma types_of_row_subprocess_run:
  "types_of_row (L\<lparr>subprocess_run := f\<rparr>) column row types = types_of_row L column row types"
  by (induction L column row types rule: types_of_row.induct)
    (simp_all add: strip_subprocess_run)

lemma types_of_rows_subprocess_run:
  "types_of_rows (L\<lparr>subprocess_run := f\<rparr>) w rows types = types_of_rows L w rows types"
  by (induction L w rows types rule: types_of_rows.induct)
    (simp_all add: types_of_row_subprocess_run split: sum.splits)

lemma import_data_subprocess_run:
  "import_data (L\<lparr>subprocess_run := f\<rparr>) self d = import_data L self d"
  by (simp add: import_data_def find_column_types_def types_of_rows_subprocess_run)

lemma split_rows_subprocess_run:
  "split_rows (L\<lparr>subprocess_run := f\<rparr>) separator rows = split_rows L separator rows"
  by (induction rows) (simp_all split: sum.splits)

lemma import_raw_data_subprocess_run:
  "import_raw_data (L\<lparr>subprocess_run := f\<rparr>) self text separator group_by_opt =
   import_raw_data L self text separator group_by_opt"
  by (simp add: import_raw_data_def import_data_subprocess_run split_rows_subprocess_run
      cong: sum.case_cong)

text \<open>
  Claim C1. For every argument that is exactly the token \<open>{x}\<close> of a name \<open>x\<close> bound in the
  values, \<open>expand\<close> returns the bound value itself, whatever its type (a number stays a
  number, \<open>None\<close> stays \<open>None\<close>). When the arguments expand to the values \<open>expanded\<close>, the
  list comprehension yields \<open>expanded\<close> without its \<open>None\<close> entries, the other entries in
  the order of the templates, and this is the argument vector \<open>run\<close> hands to the process:
  \<open>run\<close> is the same whatever the process does on any other vector, it raises what the
  process raises on this vector, and for a viewer other than \<open>table\<close> and \<open>json\<close> it
  returns what the process prints on this vector.
\<close>

theorem expand_single_token:
  "(map_of values x = Some v \<longrightarrow> expand values (token x) = Inr v) \<and>
   (map (expand values) templates = map Inr expanded \<longrightarrow>
      expand_arguments values templates = Inr (filter (\<lambda>v. v \<noteq> JNull) expanded)) \<and>
   (map (expand (vals self)) (arguments self) = map Inr expanded \<longrightarrow>
      run L self =
        run (L\<lparr>subprocess_run :=
                 \<lambda>args. subprocess_run L (filter (\<lambda>v. v \<noteq> JNull) expanded)\<rparr>) self \<and>
      (\<forall>e. subprocess_run L (filter (\<lambda>v. v \<noteq> JNull) expanded) = Inl e \<longrightarrow>
           run L self = Inl e) \<and>
      (\<forall>out viewer. subprocess_run L (filter (\<lambda>v. v \<noteq> JNull) expanded) = Inr out \<and>
           map_of (configuration self) ''viewer'' = Some viewer \<and>
           viewer \<noteq> JStr ''table'' \<and> viewer \<noteq> JStr ''json'' \<longrightarrow>
           run L self = Inr (Raw out)))"
proof -
  have vector: "expand_arguments vs ts = Inr (filter (\<lambda>v. v \<noteq> JNull) es)"
    if "map (expand vs) ts = map Inr es" for vs ts es
    using that
  proof (induction ts arbitrary: es)
    case Nil
    then show ?case by simp
  next
    case (Cons a as)
    then obtain v ws where e: "es = v # ws" "expand vs a = Inr v"
      "map (expand vs) as = map Inr ws" by (cases es) auto
    with Cons.IH[OF e(3)] show ?case by simp
  qed
  show ?thesis
  proof (intro conjI impI allI)
    assume a: "map_of values x = Some v"
    then have "x \<in> set (map fst values)"
      by (metis map_of_eq_None_iff option.distinct(1) set_map)
    then have "expand_token values (map fst values) (token x) = Some (dict_getitem values x)"
      by (rule expand_token_bound)
    with a show "expand values (token x) = Inr v"
      by (simp add: expand_def dict_getitem_def)
  next
    assume "map (expand values) templates = map Inr expanded"
    then show "expand_arguments values templates = Inr (filter (\<lambda>v. v \<noteq> JNull) expanded)"
      by (rule vector)
  next
    assume "map (expand (vals self)) (arguments self) = map Inr expanded"
    then have "expand_arguments (vals self) (arguments self) =
        Inr (filter (\<lambda>v. v \<noteq> JNull) expanded)" by (rule vector)
    then show "run L self =
        run (L\<lparr>subprocess_run :=
                 \<lambda>args. subprocess_run L (filter (\<lambda>v. v \<noteq> JNull) expanded)\<rparr>) self"
      by (simp add: run_def import_raw_data_subprocess_run cong: sum.case_cong if_cong)
  next
    fix e
    assume "map (expand (vals self)) (arguments self) = map Inr expanded"
      and "subprocess_run L (filter (\<lambda>v. v \<noteq> JNull) expanded) = Inl e"
    with vector[of "vals self" "arguments self" expanded]
    show "run L self = Inl e" by (simp add: run_def)
  next
    fix out viewer
    assume "map (expand (vals self)) (arguments self) = map Inr expanded"
      and "subprocess_run L (filter (\<lambda>v. v \<noteq> JNull) expanded) = Inr out \<and>
           map_of (configuration self) ''viewer'' = Some viewer \<and>
           viewer \<noteq> JStr ''table'' \<and> viewer \<noteq> JStr ''json''"
    with vector[of "vals self" "arguments self" expanded]
    show "run L self = Inr (Raw out)" by (simp add: run_def dict_getitem_def)
  qed
qed

theorem expand_single_token_witness:
  "map_of [(''flag'', JNull), (''count'', JNum 3), (''dir'', JStr ''/tmp'')] ''count'' =
     Some (JNum 3) \<and>
   expand [(''flag'', JNull), (''count'', JNum 3), (''dir'', JStr ''/tmp'')] ''{count}'' =
     Inr (JNum 3) \<and>
   expand [(''flag'', JNull), (''dir'', JStr ''/tmp'')] ''{flag}'' = Inr JNull \<and>
   expand_arguments [(''flag'', JNull), (''dir'', JStr ''/tmp'')]
     [''ls'', ''{flag}'', ''{dir}''] = Inr [JStr ''ls'', JStr ''/tmp''] \<and>
   run (example_library\<lparr>subprocess_run :=
          \<lambda>args. if args = [JStr ''ls'', JStr ''/tmp''] then Inr ''ok'' else Inl OSError\<rparr>)
     \<lparr>arguments = [''ls'', ''{flag}'', ''{dir}''],
      vals = [(''flag'', JNull), (''dir'', JStr ''/tmp'')],
      configuration = [(''viewer'', JStr ''multiline'')]\<rparr> = Inr (Raw ''ok'') \<and>
   run (example_library\<lparr>subprocess_run :=
          \<lambda>args. if args = [JStr ''ls'', JStr ''/tmp''] then Inl OSError else Inr ''ok''\<rparr>)
     \<lparr>arguments = [''ls'', ''{flag}'', ''{dir}''],
      vals = [(''flag'', JNull), (''dir'', JStr ''/tmp'')],
      configuration = [(''viewer'', JStr ''multiline'')]\<rparr> = Inl OSError"
proof -
  let ?vs = "[(''flag'', JNull), (''dir'', JStr ''/tmp'')]"
  let ?self = "\<lparr>arguments = [''ls'', ''{flag}'', ''{dir}''], vals = ?vs,
      configuration = [(''viewer'', JStr ''multiline'')]\<rparr>"
  let ?L1 = "example_library\<lparr>subprocess_run :=
      \<lambda>args. if args = [JStr ''ls'', JStr ''/tmp''] then Inr ''ok'' else Inl OSError\<rparr>"
  let ?L2 = "example_library\<lparr>subprocess_run :=
      \<lambda>args. if args = [JStr ''ls'', JStr ''/tmp''] then Inl OSError else Inr ''ok''\<rparr>"
  have e1: "expand ?vs ''{flag}'' = Inr JNull"
    using expand_single_token [of ?vs "''flag''" JNull, THEN conjunct1]
    by (simp add: token_def)
  have e2: "expand ?vs ''{dir}'' = Inr (JStr ''/tmp'')"
    using expand_single_token [of ?vs "''dir''" "JStr ''/tmp''", THEN conjunct1]
    by (simp add: token_def)
  have e3: "expand ?vs ''ls'' = Inr (JStr ''ls'')"
    by (simp add: expand_def token_def dict_getitem_def)
  have m: "map (expand ?vs) [''ls'', ''{flag}'', ''{dir}''] =
      map Inr [JStr ''ls'', JNull, JStr ''/tmp'']"
    using e1 e2 e3 by simp
  have m': "map (expand (vals ?self)) (arguments ?self) =
      map Inr [JStr ''ls'', JNull, JStr ''/tmp'']"
    using m by simp
  note run1 = expand_single_token [of "[]" "[]" JNull "[]"
      "[JStr ''ls'', JNull, JStr ''/tmp'']" ?self ?L1,
      THEN conjunct2, THEN conjunct2, THEN mp, OF m']
  note run2 = expand_single_token [of "[]" "[]" JNull "[]"
      "[JStr ''ls'', JNull, JStr ''/tmp'']" ?self ?L2,
      THEN conjunct2, THEN conjunct2, THEN mp, OF m']
  have r1: "run ?L1 ?self = Inr (Raw ''ok'')"
    using run1 [THEN conjunct2, THEN conjunct2, rule_format, of "''ok''" "JStr ''multiline''"]
    by simp
  have r2: "run ?L2 ?self = Inl OSError"
    using run2 [THEN conjunct2, THEN conjunct1, rule_format, of OSError]
    by simp
  show ?thesis
    using e1 m r1 r2
      expand_single_token [of "[(''flag'', JNull), (''count'', JNum 3), (''dir'', JStr ''/tmp'')]"
        "''count''" "JNum 3" "[]" "[]", THEN conjunct1]
      expand_single_token [of ?vs "''flag''" JNull "[''ls'', ''{flag}'', ''{dir}'']"
        "[JStr ''ls'', JNull, JStr ''/tmp'']", THEN conjunct2, THEN conjunct1]
    by (simp add: token_def)
qed

text \<open>
  Claim C8 as stated fails where a bound value is neither a \<open>str\<close> nor \<open>None\<close> (the
  \<open>true\<close> or \<open>false\<close> value of a boolean option can be any JSON value):
  \<open>str.replace\<close> takes no number, and \<open>expand\<close> raises TypeError instead of putting the
  value in as text.
\<close>

theorem expand_non_text_counterexample:
  "expand [(''count'', JNum 3)] ''--max={count}'' = Inl TypeError"
  by (simp add: expand_def token_def dict_getitem_def)

text \<open>
  Claim C8, amended. For a dictionary of values and an argument that is not the token of a
  bound name: when every bound value is a \<open>str\<close> or \<open>None\<close>, \<open>expand\<close> returns the
  argument after one \<open>str.replace\<close> for each bound name, in the order of the dictionary
  and each on the result of the one before, of the token \<open>{x}\<close> by the bound string,
  \<open>None\<close> being put in as the empty string (never as a text such as None or null); when
  some bound value is neither, it raises TypeError. A replacement leaves a string without
  occurrence of the token as it is, and replaces the first occurrence and then goes on
  behind it, so that every occurrence found from left to right is replaced.
\<close>

theorem expand_replaces_tokens:
  assumes "distinct (map fst values)"
    and "\<forall>k\<in>set (map fst values). argument \<noteq> token k"
  shows "(list_all is_text (map snd values) \<longrightarrow>
           expand values argument =
             Inr (JStr (foldl (\<lambda>a (k, v). py_replace a (token k) (binding_text v))
                          argument values))) \<and>
         (\<not> list_all is_text (map snd values) \<longrightarrow> expand values argument = Inl TypeError) \<and>
         binding_text JNull = [] \<and>
         (\<forall>pre post new.
            (\<forall>i<length pre. \<not> occurs_at (token x) (pre @ token x @ post) i) \<longrightarrow>
            py_replace (pre @ token x @ post) (token x) new =
              pre @ new @ py_replace post (token x) new) \<and>
         (\<forall>s new. (\<forall>i<length s. \<not> occurs_at (token x) s i) \<longrightarrow>
            py_replace s (token x) new = s)"
proof -
  have none: "expand_token values (map fst values) argument = None"
    using assms(2) by (rule expand_token_None)
  have bound: "\<forall>k\<in>set (map fst values). \<exists>v. map_of values k = Some v"
    by (metis map_of_eq_None_iff not_None_eq set_map)
  have A: "list_all is_text (map snd values) \<longrightarrow>
           expand values argument =
             Inr (JStr (foldl (\<lambda>a (k, v). py_replace a (token k) (binding_text v))
                          argument values))"
  proof
    assume tx: "list_all is_text (map snd values)"
    have "\<forall>k\<in>set (map fst values). \<exists>v. map_of values k = Some v \<and> is_text v"
    proof
      fix k assume "k \<in> set (map fst values)"
      with bound obtain v where v: "map_of values k = Some v" by auto
      then have "(k, v) \<in> set values" by (rule map_of_SomeD)
      with tx have "is_text v" by (auto simp: list_all_iff)
      with v show "\<exists>v. map_of values k = Some v \<and> is_text v" by simp
    qed
    from expand_replace_text[OF this, of argument]
      foldl_bindings[OF assms(1), of "values" argument]
    show "expand values argument =
             Inr (JStr (foldl (\<lambda>a (k, v). py_replace a (token k) (binding_text v))
                          argument values))"
      using none by (simp add: expand_def)
  qed
  have B: "\<not> list_all is_text (map snd values) \<longrightarrow> expand values argument = Inl TypeError"
  proof
    assume "\<not> list_all is_text (map snd values)"
    then obtain k v where kv: "(k, v) \<in> set values" "\<not> is_text v"
      by (auto simp: list_all_iff)
    with assms(1) have "map_of values k = Some v" by (intro map_of_is_SomeI)
    moreover from kv have "k \<in> set (map fst values)" by force
    ultimately have "\<exists>k\<in>set (map fst values). \<exists>v. map_of values k = Some v \<and> \<not> is_text v"
      using kv(2) by blast
    from expand_replace_TypeError[OF bound this, of argument]
    show "expand values argument = Inl TypeError"
      using none by (simp add: expand_def)
  qed
  have C: "binding_text JNull = []" by (simp add: binding_text_def)
  have ne: "token x \<noteq> []" by (simp add: token_def)
  have D: "\<forall>pre post new.
            (\<forall>i<length pre. \<not> occurs_at (token x) (pre @ token x @ post) i) \<longrightarrow>
            py_replace (pre @ token x @ post) (token x) new =
              pre @ new @ py_replace post (token x) new"
    using py_replace_first_occurrence[OF ne] by blast
  have E: "\<forall>s new. (\<forall>i<length s. \<not> occurs_at (token x) s i) \<longrightarrow>
            py_replace s (token x) new = s"
    using py_replace_no_occurrence[OF ne] by blast
  show ?thesis by (intro conjI A B C D E)
qed

theorem expand_replaces_tokens_witness:
  "distinct (map fst [(''flag'', JNull), (''dir'', JStr ''/tmp'')]) \<and>
   list_all is_text (map snd [(''flag'', JNull), (''dir'', JStr ''/tmp'')]) \<and>
   expand [(''flag'', JNull), (''dir'', JStr ''/tmp'')] ''--in={dir}/a{flag}:{dir}'' =
     Inr (JStr ''--in=/tmp/a:/tmp'')"
proof -
  let ?vs = "[(''flag'', JNull), (''dir'', JStr ''/tmp'')]"
  have h1: "distinct (map fst ?vs)" by simp
  have h2: "\<forall>k\<in>set (map fst ?vs). ''--in={dir}/a{flag}:{dir}'' \<noteq> token k"
    by (simp add: token_def)
  have h3: "list_all is_text (map snd ?vs)" by (simp add: is_text_def)
  show ?thesis
    using h1 h3 expand_replaces_tokens [OF h1 h2, of x]
    by (simp add: token_def binding_text_def is_text_def)
qed

subsection \<open>run\<close>

lemma run_raw:
  assumes "expand_arguments (vals self) (arguments self) = Inr expanded"
    and "subprocess_run L expanded = Inr out"
    and "map_of (configuration self) ''viewer'' = Some viewer"
    and "viewer \<noteq> JStr ''table''" and "viewer \<noteq> JStr ''json''"
  shows "run L self = Inr (Raw out)"
  using assms by (simp add: run_def dict_getitem_def)

lemma run_no_viewer:
  assumes "expand_arguments (vals self) (arguments self) = Inr expanded"
    and "subprocess_run L expanded = Inr out"
    and "map_of (configuration self) ''viewer'' = None"
  shows "run L self = Inl KeyError"
  using assms by (simp add: run_def dict_getitem_def)

text \<open>
  Claim C2 at an output configuration without the key \<open>viewer\<close>: \<open>run\<close> raises KeyError
  after the process has run, where the claim has it return the captured output (as it does
  for the viewer \<open>multiline\<close>).
\<close>

theorem run_without_viewer_raises:
  "run example_library \<lparr>arguments = [''ls''], vals = [], configuration = []\<rparr> = Inl KeyError \<and>
   run example_library
     \<lparr>arguments = [''ls''], vals = [], configuration = [(''viewer'', JStr ''multiline'')]\<rparr> =
     Inr (Raw [])"
  by (simp add: run_def expand_def dict_getitem_def example_library_def)

section \<open>Properties of the widgets and of TreeViewer\<close>

subsection \<open>Values of the widgets\<close>

text \<open>
  Claim C9 as stated fails: a NullBooleanVar has two states, and the unset one resolves to
  the configured false-value. With the false-value \<open>-q\<close> the unset field resolves to
  \<open>-q\<close>, not to a separate absent marker.
\<close>

theorem unset_boolean_counterexample:
  "get_value (Checkbox (NullBooleanVar_init False (JStr ''-v'') (JStr ''-q''))) =
     Inr (JStr ''-q'')"
  by (simp add: get_value_def get_null_def NullBooleanVar_init_def)

text \<open>
  Claim C9, amended. At submission a boolean field resolves to one of two outcomes, its
  configured true-value when it is set and its configured false-value when it is not; it
  resolves to \<open>None\<close> exactly when the value configured for its state is \<open>None\<close>, and there
  is no third state. A text, file or list field resolves to the string of its widget,
  never to \<open>None\<close>.
\<close>

theorem boolean_field_two_outcomes:
  "get_value (Checkbox v) = Inr (if tkvalue v then onvalue v else offvalue v) \<and>
   (get_value (Checkbox v) = Inr JNull \<longleftrightarrow>
      (if tkvalue v then onvalue v else offvalue v) = JNull) \<and>
   get_value (Entry s) = Inr (JStr s) \<and> get_value (Combobox s) = Inr (JStr s) \<and>
   get_value (Entry s) \<noteq> Inr JNull \<and> get_value (Combobox s) \<noteq> Inr JNull"
  by (simp add: get_value_def get_null_def)

subsection \<open>display_data\<close>

lemma getitems_values:
  "map (map_of d) ks = map Some vs \<Longrightarrow> getitems d ks = Inr vs"
proof (induction ks arbitrary: vs)
  case Nil
  then show ?case by simp
next
  case (Cons k ks)
  then obtain v vs' where "vs = v # vs'" "map_of d k = Some v"
    "map (map_of d) ks = map Some vs'" by (cases vs) auto
  with Cons.IH show ?case by (simp add: dict_getitem_def)
qed

lemma contains_all_values:
  "list_all (dict_contains d) ks \<Longrightarrow> \<exists>vs. map (map_of d) ks = map Some vs"
proof (induction ks)
  case Nil
  then show ?case by simp
next
  case (Cons k ks)
  then obtain vs where vs: "map (map_of d) ks = map Some vs" by auto
  from Cons.prems have "map_of d k \<noteq> None"
    by (simp add: dict_contains_def map_of_eq_None_iff)
  then obtain v where "map_of d k = Some v" by auto
  with vs have "map (map_of d) (k # ks) = map Some (v # vs)" by simp
  then show ?case by blast
qed

lemma display_list_append:
  "display_list self index (xs @ ys) tree p =
     (case display_list self index xs tree p of
        Inl e \<Rightarrow> Inl e
      | Inr tree' \<Rightarrow> display_list self (index + length xs) ys tree' p)"
proof (induction xs arbitrary: index tree)
  case Nil
  then show ?case by simp
next
  case (Cons x xs)
  show ?case
    by (simp add: Cons.IH split: sum.splits)
qed

lemma create_widgets_empty_key_values:
  "key_values self = Some [] \<Longrightarrow> create_widgets self v = Inl IndexError"
  by (simp add: create_widgets_def)

lemma create_widgets_display_data:
  "key_values self \<noteq> Some [] \<Longrightarrow> create_widgets self v = display_data self v [] Root"
  by (cases "key_values self"; cases "the (key_values self)") (auto simp: create_widgets_def)

text \<open>
  Claim C4. With a configured key-values list (not empty: \<open>create_widgets\<close> reads its first
  name before anything is displayed), an object that contains all the names of the list is
  displayed as one node under the current parent, whose label is the value at the first
  name and whose row values are the values at the other names, nothing of the object
  itself being visited. This holds when \<open>display_data\<close> is called on the object, and when
  the object is an element of an array, at any position: the elements before it are
  displayed, then the one node is added under the parent of the array, with no node for
  the index, and the display goes on with the next index.
\<close>

theorem key_values_object_single_node:
  assumes kv: "key_values self = Some (field_key # field_values)"
    and all: "list_all (dict_contains d) (field_key # field_values)"
  shows "\<exists>t vs. map_of d field_key = Some t \<and> map (map_of d) field_values = map Some vs \<and>
           display_data self (JObj d) tree p =
             Inr (tree @ [\<lparr>parent = p, label = TextValue t, row_values = vs,
                           opened = False\<rparr>]) \<and>
           display_list self index (before @ JObj d # rest) tree p =
             (case display_list self index before tree p of
                Inl e \<Rightarrow> Inl e
              | Inr tree' \<Rightarrow>
                  display_list self (Suc (index + length before)) rest
                    (tree' @ [\<lparr>parent = p, label = TextValue t, row_values = vs,
                               opened = False\<rparr>]) p)"
proof -
  from all have "map_of d field_key \<noteq> None"
    by (simp add: dict_contains_def map_of_eq_None_iff)
  then obtain t where t: "map_of d field_key = Some t" by auto
  from all have "list_all (dict_contains d) field_values" by simp
  then obtain vs where vs: "map (map_of d) field_values = map Some vs"
    using contains_all_values by blast
  have has: "has_key_values self (JObj d)"
    using kv all by (simp add: has_key_values_def)
  have node: "key_values_node self (JObj d) tr q =
      Some (Inr (tr @ [\<lparr>parent = q, label = TextValue t, row_values = vs, opened = False\<rparr>]))"
    for tr q
    using has kv all t getitems_values[OF vs] by (simp add: key_values_node_def dict_getitem_def)
  have dd: "display_data self (JObj d) tr q =
      Inr (tr @ [\<lparr>parent = q, label = TextValue t, row_values = vs, opened = False\<rparr>])" for tr q
    by (simp add: node)
  have "display_list self index (before @ JObj d # rest) tree p =
             (case display_list self index before tree p of
                Inl e \<Rightarrow> Inl e
              | Inr tree' \<Rightarrow>
                  display_list self (Suc (index + length before)) rest
                    (tree' @ [\<lparr>parent = p, label = TextValue t, row_values = vs,
                               opened = False\<rparr>]) p)"
    using has by (simp add: display_list_append dd del: display_data.simps split: sum.splits)
  with t vs dd show ?thesis by blast
qed

theorem key_values_object_single_node_witness:
  "key_values \<lparr>collapsed = False, key_values = Some [''id'', ''n'']\<rparr> = Some [''id'', ''n''] \<and>
   list_all (dict_contains [(''id'', JStr ''x''), (''n'', JNum 1)]) [''id'', ''n''] \<and>
   create_widgets \<lparr>collapsed = False, key_values = Some [''id'', ''n'']\<rparr>
     (JArr [JObj [(''id'', JStr ''x''), (''n'', JNum 1)],
            JObj [(''id'', JStr ''y''), (''n'', JNum 2)]]) =
     Inr [\<lparr>parent = Root, label = TextValue (JStr ''x''), row_values = [JNum 1],
            opened = False\<rparr>,
          \<lparr>parent = Root, label = TextValue (JStr ''y''), row_values = [JNum 2],
            opened = False\<rparr>]"
proof -
  let ?tv = "\<lparr>collapsed = False, key_values = Some [''id'', ''n'']\<rparr>"
  let ?d1 = "[(''id'', JStr ''x''), (''n'', JNum 1)]"
  let ?d2 = "[(''id'', JStr ''y''), (''n'', JNum 2)]"
  have h1: "key_values ?tv = Some [''id'', ''n'']" by simp
  have h2: "list_all (dict_contains ?d1) [''id'', ''n'']" by (simp add: dict_contains_def)
  have h3: "list_all (dict_contains ?d2) [''id'', ''n'']" by (simp add: dict_contains_def)
  show ?thesis
    using h2 key_values_object_single_node [OF h1 h2, of "[]" Root 0 "[]" "[JObj ?d2]"]
      key_values_object_single_node [OF h1 h3, of
        "[\<lparr>parent = Root, label = TextValue (JStr ''x''), row_values = [JNum 1],
            opened = False\<rparr>]" Root 1 "[]" "[]"]
    by (simp add: create_widgets_def has_key_values_def key_values_node_def
        dict_contains_def dict_getitem_def)
qed

end
